theory Spec2Isabelle
  imports Main
begin

section \<open>Data model of r2/lib/voting.py\<close>

text \<open>
  The module records votes, commits them from a queue and fans the voted thing out to the
  queues of the precomputed listings. Accounts, links, comments, the vote store, the cache,
  the lock service, the queue transport and the hooks live in other modules; they appear
  here as records of the attributes the module reads, as fields of an environment, and as
  events of a trace that records every call the module makes on them, in program order.
\<close>

datatype direction = Up | Down | Unvote

datatype error =
    KeyError string
  | NotFound
  | TimeoutExpired
  | TypeError
  | ValueError
  | AttributeError
  | ZeroDivisionError
  | CacheError
  | QueryError

datatype outcome = Returned | Raised error

record account =
  a_id :: int
  a_id36 :: string
  a_fullname :: string

record subreddit =
  sr_id :: int
  sr_name :: string

record link =
  l_fullname :: string
  l_author_id :: int
  l_sr_id :: int
  l_url :: string
  l_spam :: bool
  l_deleted :: bool
  l_is_votable :: bool

record comment =
  c_fullname :: string
  c_author_id :: int
  c_num_votes :: int
  c_spam :: bool
  c_deleted :: bool
  c_is_votable :: bool

datatype thing = Link link | Comment comment

datatype thing_class = LinkClass | CommentClass

fun thing_fullname :: "thing \<Rightarrow> string" where
  "thing_fullname (Link l) = l_fullname l"
| "thing_fullname (Comment c) = c_fullname c"

fun thing_cls :: "thing \<Rightarrow> thing_class" where
  "thing_cls (Link l) = LinkClass"
| "thing_cls (Comment c) = CommentClass"

text \<open>
  The payload of a vote message after \<open>json.loads\<close>: a dictionary whose keys may be
  missing in a corrupt record (\<open>pop\<close> and \<open>[]\<close> raise KeyError on a missing key, \<open>get\<close>
  does not). The free-form \<open>data\<close> dictionary is an association list.
\<close>

record vote_data =
  vd_user_id :: "int option"
  vd_thing_fullname :: "string option"
  vd_direction :: "direction option"
  vd_date :: "int option"
  vd_data :: "(string \<times> string) list option"

text \<open>
  The body of a message, by what \<open>json.loads\<close> makes of it: it raises ValueError on a
  body that is not JSON, and gives a list, or a string, number, boolean or null, or a
  dictionary. A list has \<open>pop\<close> (which raises TypeError on a string argument) and no
  \<open>get\<close>; the scalars have neither.
\<close>

datatype payload = NotJson | JsonArray | JsonScalar | JsonObject vote_data

text \<open>The precomputed queries of r2.lib.db.queries that the module names.\<close>

datatype query =
    get_liked account
  | get_disliked account
  | get_submitted account string string
  | get_links subreddit string string
  | get_domain_links string string string
  | get_comments account string string

datatype mutation = m_delete query string | m_insert query string

datatype event =
    Print_ignoring
  | Print_processing
  | Log_exception
  | TimerStart string
  | TimerIntermediate string string
  | TimerStop string
  | TimerFlush string
  | LockAcquire string string int
  | LockRelease string string
  | VoteCommit int string direction
  | Mutate mutation
  | AddItem string string
  | AddVoteItem string vote_data
  | AddQueries "query list" "thing list"
  | AddToCommentstreeQ string
  | CacheSet string int int
  | LastModifiedTouch string string
  | HookCall string
  | StatsFlush string

text \<open>
  The attributes of the application globals \<open>g\<close> that the module reads. The grace period
  is read as \<open>int(g.vote_queue_grace_period.total_seconds())\<close> only, so the record holds
  that number of whole seconds; the threshold and the period are the two entries of
  \<open>g.live_config\<close>.
\<close>

record globals =
  vote_queue_grace_period_seconds :: int
  shard_author_query_queues :: bool
  shard_subreddit_query_queues :: bool
  shard_domain_query_queues :: bool
  running_as_script :: bool
  comment_vote_update_threshold :: int
  comment_vote_update_period :: int

text \<open>
  The collaborators: the lookups \<open>Account._byID\<close>, \<open>Subreddit._byID\<close>,
  \<open>Link._by_fullname\<close>, \<open>Comment._by_fullname\<close> (a missing key is NotFound), the hook
  \<open>vote.validate_vote_data\<close> (the value of \<open>call_until_return\<close>, None when no handler
  returned one), \<open>UrlParser\<close> (the domain permutations and the hostname of a URL),
  Python's \<open>hash\<close>, \<open>Vote.serialize_direction\<close>, the name of the last-modified marker
  of a thing class, the name of its vote queue, whether \<open>add_queries\<close> raises on a
  list of queries (its lock timing out, its storage failing), and the timestamps that
  \<open>datetime.utcfromtimestamp\<close> converts (it raises ValueError on the others). The last
  three fields stand for the order in which Python 2 iterates over a set of strings and
  over the keys of a dictionary, of strings and of integers: it follows the hash table and
  is not fixed by the language, so it is taken from the environment (see \<open>iteration\<close>
  below).
\<close>

record env =
  g :: globals
  accounts :: "int \<Rightarrow> account option"
  subreddits :: "int \<Rightarrow> subreddit option"
  links :: "string \<Rightarrow> link option"
  comments :: "string \<Rightarrow> comment option"
  validate_vote_data :: "payload \<Rightarrow> bool option"
  domain_permutations :: "string \<Rightarrow> string list"
  hostname :: "string \<Rightarrow> string option"
  py_hash :: "string option \<Rightarrow> int"
  serialize_direction :: "direction \<Rightarrow> int"
  last_modified_name :: "thing_class \<Rightarrow> string"
  vote_queue_name :: "thing_class \<Rightarrow> string"
  add_queries_raises :: "query list \<Rightarrow> bool"
  utcfromtimestamp_ok :: "int \<Rightarrow> bool"
  set_iter :: "string list \<Rightarrow> string list"
  str_keys_iter :: "string list \<Rightarrow> string list"
  int_keys_iter :: "int list \<Rightarrow> int list"

text \<open>
  What varies from one delivery of a message to the next: whether the lock is acquired
  within its timeout, and the judgment \<open>vote.effects.affects_score\<close> of the vote store.
\<close>

record conditions =
  lock_acquired :: bool
  affects_score :: bool

record stored_vote =
  sv_direction :: direction
  sv_date :: int

record vote =
  v_user :: account
  v_thing :: string
  v_direction :: direction
  v_date :: int
  v_previous_vote :: "direction option"
  v_is_automatic_initial_vote :: bool
  v_affects_score :: bool

text \<open>
  The mutable state: the vote store, keyed by the voter's id and the thing's fullname,
  and the contents of the cached queries that \<open>CachedQueryMutator\<close> changes.
\<close>

record state =
  votes :: "int \<times> string \<Rightarrow> stored_vote option"
  listings :: "query \<Rightarrow> string set"

section \<open>String formatting\<close>

text \<open>The decimal digit \<open>d\<close>, for \<open>d < 10\<close>; \<open>str_of_nat\<close> calls it on nothing else.\<close>

definition digit_char :: "nat \<Rightarrow> char" where
  "digit_char d = ''0123456789'' ! d"

fun str_of_nat :: "nat \<Rightarrow> string" where
  "str_of_nat n = (if n < 10 then [digit_char n] else str_of_nat (n div 10) @ [digit_char (n mod 10)])"

definition str_of_int :: "int \<Rightarrow> string" where
  "str_of_int i = (if i < 0 then CHR ''-'' # str_of_nat (nat (- i)) else str_of_nat (nat i))"

section \<open>The vote store\<close>

text \<open>
  Modelled from the spec: the class \<open>Vote\<close> of r2.models.vote, which is not in this
  module. A Vote is identified by (actor, target); constructing it fails with TypeError
  when the target cannot be voted on; it carries the previous direction when it replaces
  an earlier vote, and whether it is the actor's first vote on the target ("automatic
  initial"); whether it changed the score is a judgment of the store, taken as given.
\<close>

definition new_vote :: "state \<Rightarrow> bool \<Rightarrow> account \<Rightarrow> string \<Rightarrow> direction \<Rightarrow> int \<Rightarrow> vote" where
  "new_vote st affects user fullname dir date =
     \<lparr>v_user = user, v_thing = fullname, v_direction = dir, v_date = date,
      v_previous_vote = map_option sv_direction (votes st (a_id user, fullname)),
      v_is_automatic_initial_vote = (votes st (a_id user, fullname) = None),
      v_affects_score = affects\<rparr>"

definition Vote :: "state \<Rightarrow> bool \<Rightarrow> account \<Rightarrow> string \<Rightarrow> bool \<Rightarrow> direction \<Rightarrow> int \<Rightarrow> error + vote" where
  "Vote st affects user fullname votable dir date =
     (if \<not> votable then Inl TypeError else Inr (new_vote st affects user fullname dir date))"

text \<open>
  Modelled from the spec: \<open>Vote.commit\<close>, an upsert keyed by (actor, target).
\<close>

definition commit :: "vote \<Rightarrow> state \<Rightarrow> state" where
  "commit v st =
     st\<lparr>votes := (votes st)((a_id (v_user v), v_thing v) \<mapsto>
           \<lparr>sv_direction = v_direction v, sv_date = v_date v\<rparr>)\<rparr>"

definition is_upvote :: "vote \<Rightarrow> bool" where
  "is_upvote v = (v_direction v = Up)"

definition is_downvote :: "vote \<Rightarrow> bool" where
  "is_downvote v = (v_direction v = Down)"

text \<open>
  Modelled from the spec: \<open>CachedQueryMutator\<close> of r2.models.query_cache. It collects
  the mutations and applies them in order when its scope ends; a listing holds a target
  at most once, so it is a set of fullnames.
\<close>

fun apply_mutation :: "(query \<Rightarrow> string set) \<Rightarrow> mutation \<Rightarrow> (query \<Rightarrow> string set)" where
  "apply_mutation ls (m_delete q t) = ls(q := ls q - {t})"
| "apply_mutation ls (m_insert q t) = ls(q := insert t (ls q))"

definition CachedQueryMutator :: "mutation list \<Rightarrow> state \<Rightarrow> event list \<times> state" where
  "CachedQueryMutator ms st = (map Mutate ms, st\<lparr>listings := foldl apply_mutation (listings st) ms\<rparr>)"

section \<open>Recording and submitting a vote\<close>

definition prequeued_vote_key :: "account \<Rightarrow> thing \<Rightarrow> string" where
  "prequeued_vote_key user item = ''queuedvote:'' @ a_id36 user @ ''_'' @ thing_fullname item"

text \<open>
  \<open>update_vote_lookups\<close>: the cache write, then the touch of the last-modified marker.
  Nothing in the function catches an exception, so when \<open>g.gencache.set\<close> raises
  (\<open>cache_ok\<close> is False) the function raises too, before the touch.
\<close>

definition update_vote_lookups :: "env \<Rightarrow> bool \<Rightarrow> account \<Rightarrow> thing \<Rightarrow> direction \<Rightarrow> outcome \<times> event list" where
  "update_vote_lookups e cache_ok user thing dir =
     (let key = prequeued_vote_key user thing;
          grace_period = vote_queue_grace_period_seconds (g e);
          d = serialize_direction e dir
      in if \<not> cache_ok then (Raised CacheError, [])
         else (Returned,
               [CacheSet key d (grace_period + 1),
                LastModifiedTouch (a_fullname user) (last_modified_name e (thing_cls thing))]))"

text \<open>
  \<open>cast_vote\<close>: \<open>now\<close> is the epoch timestamp of the call, \<open>data\<close> the extension data
  after the request's address and organisation were added.
\<close>

definition cast_vote :: "env \<Rightarrow> bool \<Rightarrow> int \<Rightarrow> account \<Rightarrow> thing \<Rightarrow> direction \<Rightarrow> (string \<times> string) list \<Rightarrow> outcome \<times> event list" where
  "cast_vote e cache_ok now user thing dir data =
     (case update_vote_lookups e cache_ok user thing dir of
        (Raised err, evs) \<Rightarrow> (Raised err, evs)
      | (Returned, evs) \<Rightarrow>
          (let vote_data = \<lparr>vd_user_id = Some (a_id user),
                            vd_thing_fullname = Some (thing_fullname thing),
                            vd_direction = Some dir,
                            vd_date = Some now,
                            vd_data = Some data\<rparr>
           in (Returned,
               evs @ [HookCall ''vote.get_vote_data'',
                      AddVoteItem (vote_queue_name e (thing_cls thing)) vote_data])))"

section \<open>The voter's liked and disliked listings\<close>

definition update_user_liked_mutations :: "vote \<Rightarrow> mutation list" where
  "update_user_liked_mutations v =
     (case v_previous_vote v of
        None \<Rightarrow> []
      | Some p \<Rightarrow>
          (if p = Up then [m_delete (get_liked (v_user v)) (v_thing v)]
           else if p = Down then [m_delete (get_disliked (v_user v)) (v_thing v)]
           else []))
     @ (if is_upvote v then [m_insert (get_liked (v_user v)) (v_thing v)]
        else if is_downvote v then [m_insert (get_disliked (v_user v)) (v_thing v)]
        else [])"

definition update_user_liked :: "vote \<Rightarrow> state \<Rightarrow> event list \<times> state" where
  "update_user_liked v st = CachedQueryMutator (update_user_liked_mutations v) st"

section \<open>Fan-out to the queues of the precomputed listings\<close>

definition SORTS :: "string list" where
  "SORTS = [''hot'', ''top'', ''controversial'']"

definition add_to_author_query_q :: "env \<Rightarrow> link \<Rightarrow> event list" where
  "add_to_author_query_q e lnk =
     (let queue_name =
            (if shard_author_query_queues (g e)
             then ''author_query_'' @ str_of_int (l_author_id lnk mod 10) @ ''_q''
             else ''author_query_q'')
      in [AddItem queue_name (l_fullname lnk)])"

definition add_to_subreddit_query_q :: "env \<Rightarrow> link \<Rightarrow> event list" where
  "add_to_subreddit_query_q e lnk =
     (let queue_name =
            (if shard_subreddit_query_queues (g e)
             then ''subreddit_query_'' @ str_of_int (l_sr_id lnk mod 10) @ ''_q''
             else ''subreddit_query_q'')
      in [AddItem queue_name (l_fullname lnk)])"

definition domain_queue_name :: "env \<Rightarrow> link \<Rightarrow> string" where
  "domain_queue_name e lnk =
     (if shard_domain_query_queues (g e)
      then ''domain_query_'' @ str_of_int (py_hash e (hostname e (l_url lnk)) mod 10) @ ''_q''
      else ''domain_query_q'')"

definition add_to_domain_query_q :: "env \<Rightarrow> link \<Rightarrow> event list" where
  "add_to_domain_query_q e lnk =
     (if domain_permutations e (l_url lnk) = [] then []
      else [AddItem (domain_queue_name e lnk) (l_fullname lnk)])"

text \<open>
  \<open>add_queries\<close> of r2.lib.db.queries inserts the items into each of the queries, each
  under the query's lock; it is a call on a collaborator, recorded as one event, and it
  raises when the environment says so.
\<close>

definition add_queries :: "env \<Rightarrow> query list \<Rightarrow> thing list \<Rightarrow> outcome \<times> event list" where
  "add_queries e queries insert_items =
     (if add_queries_raises e queries then (Raised QueryError, [])
      else (Returned, [AddQueries queries insert_items]))"

section \<open>The link vote consumer\<close>

text \<open>
  The body of the \<open>with g.make_lock(...)\<close> block of \<open>process_message\<close>: Inl is a way out of
  the function from inside the block (a return after the caught TypeError, or an exception),
  Inr the committed vote. The arguments of \<open>Vote(...)\<close> are evaluated from left to right:
  the direction, the date and its conversion, the data.
\<close>

definition link_vote_locked :: "env \<Rightarrow> conditions \<Rightarrow> vote_data \<Rightarrow> account \<Rightarrow> link \<Rightarrow> state \<Rightarrow> (outcome + vote) \<times> event list \<times> state" where
  "link_vote_locked e c vd user lnk st =
     (case vd_direction vd of
        None \<Rightarrow> (Inl (Raised (KeyError ''direction'')), [Print_processing], st)
      | Some dir \<Rightarrow>
     (case vd_date vd of
        None \<Rightarrow> (Inl (Raised (KeyError ''date'')), [Print_processing], st)
      | Some date \<Rightarrow>
     (if \<not> utcfromtimestamp_ok e date
      then (Inl (Raised ValueError), [Print_processing], st)
      else
     (case vd_data vd of
        None \<Rightarrow> (Inl (Raised (KeyError ''data'')), [Print_processing], st)
      | Some data \<Rightarrow>
     (case Vote st (affects_score c) user (l_fullname lnk) (l_is_votable lnk) dir date of
        Inl err \<Rightarrow>
          (if err = TypeError then (Inl Returned, [Print_processing, Log_exception], st)
           else (Inl (Raised err), [Print_processing], st))
      | Inr v \<Rightarrow>
          (case update_user_liked v (commit v st) of
             (evs, st') \<Rightarrow>
               (Inr v,
                [Print_processing,
                 VoteCommit (a_id user) (l_fullname lnk) dir,
                 TimerIntermediate ''link_vote_processor'' ''create_vote_object'']
                @ evs
                @ [TimerIntermediate ''link_vote_processor'' ''voter_likes''],
                st')))))))"

definition link_lock_key :: "account \<Rightarrow> link \<Rightarrow> string" where
  "link_lock_key user lnk = ''vote-'' @ a_id36 user @ ''-'' @ l_fullname lnk"

definition link_fan_out :: "env \<Rightarrow> vote \<Rightarrow> link \<Rightarrow> event list" where
  "link_fan_out e v lnk =
     (let vote_valid = (v_is_automatic_initial_vote v \<or> v_affects_score v);
          link_valid = (\<not> (l_spam lnk \<or> l_deleted lnk))
      in if vote_valid \<and> link_valid
         then add_to_author_query_q e lnk @ add_to_subreddit_query_q e lnk @ add_to_domain_query_q e lnk
         else [])"

text \<open>
  The body of \<open>process_message\<close> of \<open>consume_link_vote_queue\<close> when the payload is a
  dictionary.
\<close>

definition link_process_vote_data :: "env \<Rightarrow> conditions \<Rightarrow> vote_data \<Rightarrow> state \<Rightarrow> outcome \<times> event list \<times> state" where
  "link_process_vote_data e c vd st =
     (if validate_vote_data e (JsonObject vd) = Some False then (Returned, [Print_ignoring], st)
      else
     (case vd_user_id vd of
        None \<Rightarrow> (Raised (KeyError ''user_id''), [TimerStart ''link_vote_processor''], st)
      | Some uid \<Rightarrow>
     (case accounts e uid of
        None \<Rightarrow> (Raised NotFound, [TimerStart ''link_vote_processor''], st)
      | Some user \<Rightarrow>
     (case vd_thing_fullname vd of
        None \<Rightarrow> (Raised (KeyError ''thing_fullname''), [TimerStart ''link_vote_processor''], st)
      | Some fullname \<Rightarrow>
     (case links e fullname of
        None \<Rightarrow> (Raised NotFound, [TimerStart ''link_vote_processor''], st)
      | Some lnk \<Rightarrow>
     (if \<not> lock_acquired c then (Raised TimeoutExpired, [TimerStart ''link_vote_processor''], st)
      else
     (case link_vote_locked e c vd user lnk st of
        (Inl out, evs, st') \<Rightarrow>
          (out,
           [TimerStart ''link_vote_processor'', LockAcquire ''voting'' (link_lock_key user lnk) 5]
           @ evs @ [LockRelease ''voting'' (link_lock_key user lnk)],
           st')
      | (Inr v, evs, st') \<Rightarrow>
          (Returned,
           [TimerStart ''link_vote_processor'', LockAcquire ''voting'' (link_lock_key user lnk) 5]
           @ evs @ [LockRelease ''voting'' (link_lock_key user lnk)]
           @ link_fan_out e v lnk
           @ [TimerStop ''link_vote_processor'', TimerFlush ''link_vote_processor''],
           st'))))))))"

text \<open>
  \<open>process_message\<close> of \<open>consume_link_vote_queue\<close>, as written (lines 112-163). On a payload
  that is not a dictionary, the print of a flagged message raises AttributeError at
  \<open>vote_data.get\<close>, and an unflagged one raises at \<open>vote_data.pop\<close>.
\<close>

definition link_process_message :: "env \<Rightarrow> conditions \<Rightarrow> payload \<Rightarrow> state \<Rightarrow> outcome \<times> event list \<times> state" where
  "link_process_message e c p st =
     (case p of
        NotJson \<Rightarrow> (Raised ValueError, [], st)
      | JsonArray \<Rightarrow>
          (if validate_vote_data e p = Some False then (Raised AttributeError, [], st)
           else (Raised TypeError, [TimerStart ''link_vote_processor''], st))
      | JsonScalar \<Rightarrow>
          (if validate_vote_data e p = Some False then (Raised AttributeError, [], st)
           else (Raised AttributeError, [TimerStart ''link_vote_processor''], st))
      | JsonObject vd \<Rightarrow> link_process_vote_data e c vd st)"

text \<open>
  Modelled from the spec: the decorator \<open>g.stats.amqp_processor(qname)\<close> of r2.lib.stats,
  which is put on every \<open>process_message\<close> of the module and is not in it. The spec has the
  metrics flushed also for a message that is dropped: the trace of a decorated call is the
  trace of the function and then the flush of the metrics of the queue, whether the
  function returned or raised; the outcome is the function's.
\<close>

definition amqp_processor :: "string \<Rightarrow> event list \<Rightarrow> event list" where
  "amqp_processor qname evs = evs @ [StatsFlush qname]"

definition decorated_link_process_message :: "env \<Rightarrow> conditions \<Rightarrow> payload \<Rightarrow> state \<Rightarrow> outcome \<times> event list \<times> state" where
  "decorated_link_process_message e c p st =
     (case link_process_message e c p st of
        (out, evs, st') \<Rightarrow> (out, amqp_processor ''vote_link_q'' evs, st'))"

text \<open>
  Modelled from the spec: \<open>amqp.consume_items\<close>, the queue transport. Delivery is at least
  once: every delivery of the list is passed to the decorated \<open>process_message\<close> with the
  conditions it meets, and a message that was not acknowledged, or was duplicated, comes
  again as a later delivery.
\<close>

fun consume_link_vote_queue :: "env \<Rightarrow> (conditions \<times> payload) list \<Rightarrow> state \<Rightarrow> event list \<times> state" where
  "consume_link_vote_queue e [] st = ([], st)"
| "consume_link_vote_queue e ((c, vd) # rest) st =
     (case decorated_link_process_message e c vd st of
        (out, evs, st') \<Rightarrow>
          (case consume_link_vote_queue e rest st' of
             (evs', st'') \<Rightarrow> (evs @ evs', st'')))"

section \<open>The comment vote consumer\<close>

text \<open>
  The last statement of the eligible branch: the comments-tree queue gets the comment when
  its vote count is at most the threshold, or a multiple of the period. Python evaluates
  \<open>num_votes % update_period\<close> only when the first test fails, and raises
  ZeroDivisionError there when the period is 0.
\<close>

definition comment_score_update :: "env \<Rightarrow> comment \<Rightarrow> outcome \<times> event list" where
  "comment_score_update e cm =
     (let update_threshold = comment_vote_update_threshold (g e);
          update_period = comment_vote_update_period (g e);
          num_votes = c_num_votes cm
      in if num_votes \<le> update_threshold then (Returned, [AddToCommentstreeQ (c_fullname cm)])
         else if update_period = 0 then (Raised ZeroDivisionError, [])
         else if num_votes mod update_period = 0 then (Returned, [AddToCommentstreeQ (c_fullname cm)])
         else (Returned, []))"

definition comment_fan_out :: "env \<Rightarrow> vote \<Rightarrow> comment \<Rightarrow> outcome \<times> event list" where
  "comment_fan_out e v cm =
     (let vote_valid = (v_is_automatic_initial_vote v \<or> v_affects_score v);
          comment_valid = (\<not> (c_spam cm \<or> c_deleted cm))
      in if vote_valid \<and> comment_valid
         then
           (case accounts e (c_author_id cm) of
              None \<Rightarrow> (Raised NotFound, [])
            | Some author \<Rightarrow>
                (let queries = map (\<lambda>sort. get_comments author sort ''all'') SORTS
                 in case add_queries e queries [Comment cm] of
                      (Raised err, evs) \<Rightarrow> (Raised err, evs)
                    | (Returned, evs) \<Rightarrow>
                        (case comment_score_update e cm of
                           (out, evs') \<Rightarrow>
                             (out,
                              evs @ [TimerIntermediate ''comment_vote_processor'' ''author_queries'']
                              @ evs'))))
         else (Returned, []))"

text \<open>
  The body of \<open>process_message\<close> of \<open>consume_comment_vote_queue\<close> when the payload is a
  dictionary.
\<close>

definition comment_process_vote_data :: "env \<Rightarrow> conditions \<Rightarrow> vote_data \<Rightarrow> state \<Rightarrow> outcome \<times> event list \<times> state" where
  "comment_process_vote_data e c vd st =
     (if validate_vote_data e (JsonObject vd) = Some False then (Returned, [Print_ignoring], st)
      else
     (case vd_user_id vd of
        None \<Rightarrow> (Raised (KeyError ''user_id''), [TimerStart ''comment_vote_processor''], st)
      | Some uid \<Rightarrow>
     (case accounts e uid of
        None \<Rightarrow> (Raised NotFound, [TimerStart ''comment_vote_processor''], st)
      | Some user \<Rightarrow>
     (case vd_thing_fullname vd of
        None \<Rightarrow> (Raised (KeyError ''thing_fullname''), [TimerStart ''comment_vote_processor''], st)
      | Some fullname \<Rightarrow>
     (case comments e fullname of
        None \<Rightarrow> (Raised NotFound, [TimerStart ''comment_vote_processor''], st)
      | Some cm \<Rightarrow>
     (case vd_direction vd of
        None \<Rightarrow> (Raised (KeyError ''direction''),
                 [TimerStart ''comment_vote_processor'', Print_processing], st)
      | Some dir \<Rightarrow>
     (case vd_date vd of
        None \<Rightarrow> (Raised (KeyError ''date''),
                 [TimerStart ''comment_vote_processor'', Print_processing], st)
      | Some date \<Rightarrow>
     (if \<not> utcfromtimestamp_ok e date
      then (Raised ValueError, [TimerStart ''comment_vote_processor'', Print_processing], st)
      else
     (case vd_data vd of
        None \<Rightarrow> (Raised (KeyError ''data''),
                 [TimerStart ''comment_vote_processor'', Print_processing], st)
      | Some data \<Rightarrow>
     (case Vote st (affects_score c) user (c_fullname cm) (c_is_votable cm) dir date of
        Inl err \<Rightarrow>
          (if err = TypeError
           then (Returned, [TimerStart ''comment_vote_processor'', Print_processing, Log_exception], st)
           else (Raised err, [TimerStart ''comment_vote_processor'', Print_processing], st))
      | Inr v \<Rightarrow>
          (case comment_fan_out e v cm of
             (Raised err, evs) \<Rightarrow>
               (Raised err,
                [TimerStart ''comment_vote_processor'', Print_processing,
                 VoteCommit (a_id user) (c_fullname cm) dir,
                 TimerIntermediate ''comment_vote_processor'' ''create_vote_object'']
                @ evs,
                commit v st)
           | (Returned, evs) \<Rightarrow>
               (Returned,
                [TimerStart ''comment_vote_processor'', Print_processing,
                 VoteCommit (a_id user) (c_fullname cm) dir,
                 TimerIntermediate ''comment_vote_processor'' ''create_vote_object'']
                @ evs
                @ [TimerStop ''comment_vote_processor'', TimerFlush ''comment_vote_processor''],
                commit v st))))))))))))"

text \<open>\<open>process_message\<close> of \<open>consume_comment_vote_queue\<close>, as written (lines 318-378).\<close>

definition comment_process_message :: "env \<Rightarrow> conditions \<Rightarrow> payload \<Rightarrow> state \<Rightarrow> outcome \<times> event list \<times> state" where
  "comment_process_message e c p st =
     (case p of
        NotJson \<Rightarrow> (Raised ValueError, [], st)
      | JsonArray \<Rightarrow>
          (if validate_vote_data e p = Some False then (Raised AttributeError, [], st)
           else (Raised TypeError, [TimerStart ''comment_vote_processor''], st))
      | JsonScalar \<Rightarrow>
          (if validate_vote_data e p = Some False then (Raised AttributeError, [], st)
           else (Raised AttributeError, [TimerStart ''comment_vote_processor''], st))
      | JsonObject vd \<Rightarrow> comment_process_vote_data e c vd st)"

definition decorated_comment_process_message :: "env \<Rightarrow> conditions \<Rightarrow> payload \<Rightarrow> state \<Rightarrow> outcome \<times> event list \<times> state" where
  "decorated_comment_process_message e c p st =
     (case comment_process_message e c p st of
        (out, evs, st') \<Rightarrow> (out, amqp_processor ''vote_comment_q'' evs, st'))"

section \<open>The consumers of the author, subreddit and domain queues\<close>

text \<open>
  A batch is the list of the bodies of its messages. The set comprehension
  \<open>{msg.body for msg in msgs}\<close> keeps one copy of each body, and \<open>iteritems()\<close> visits each
  key of a dictionary once; the order of either is that of the hash table. \<open>iteration\<close>
  turns any order that the environment proposes for the elements \<open>ks\<close> into a list that
  holds each element of \<open>ks\<close> once, so that every order of the elements is the order of
  some environment, also the one of CPython.
\<close>

definition iteration :: "('k list \<Rightarrow> 'k list) \<Rightarrow> 'k list \<Rightarrow> 'k list" where
  "iteration order ks =
     (let proposed = remdups (filter (\<lambda>k. k \<in> set ks) (order ks))
      in proposed @ filter (\<lambda>k. k \<notin> set proposed) (remdups ks))"

definition by_fullname :: "(string \<Rightarrow> 'a option) \<Rightarrow> string list \<Rightarrow> error + 'a list" where
  "by_fullname db names = (case those (map db names) of None \<Rightarrow> Inl NotFound | Some xs \<Rightarrow> Inr xs)"

definition byID :: "(int \<Rightarrow> 'a option) \<Rightarrow> int list \<Rightarrow> error + (int \<Rightarrow> 'a option)" where
  "byID db ids =
     (case those (map db ids) of
        None \<Rightarrow> Inl NotFound
      | Some xs \<Rightarrow> Inr (\<lambda>i. if i \<in> set ids then db i else None))"

text \<open>
  \<open>defaultdict(list)\<close> filled by \<open>d[key].append(value)\<close>: an association list with one
  entry for each key; the order of its entries is that of the insertions and is not the one
  in which the dictionary is iterated (see \<open>iteritems\<close>).
\<close>

fun group_append :: "'k \<Rightarrow> 'v \<Rightarrow> ('k \<times> 'v list) list \<Rightarrow> ('k \<times> 'v list) list" where
  "group_append k v [] = [(k, [v])]"
| "group_append k v ((k', vs) # rest) =
     (if k' = k then (k', vs @ [v]) # rest else (k', vs) # group_append k v rest)"

definition group_pairs :: "('k \<times> 'v) list \<Rightarrow> ('k \<times> 'v list) list" where
  "group_pairs ps = foldl (\<lambda>groups (k, v). group_append k v groups) [] ps"

text \<open>
  \<open>d[k]\<close>, the list of a key, and \<open>d.iteritems()\<close>: the keys in the order of the iteration,
  each with its list.
\<close>

definition values_of :: "('k \<times> 'v list) list \<Rightarrow> 'k \<Rightarrow> 'v list" where
  "values_of d k = (case map_of d k of None \<Rightarrow> [] | Some vs \<Rightarrow> vs)"

definition iteritems :: "('k list \<Rightarrow> 'k list) \<Rightarrow> ('k \<times> 'v list) list \<Rightarrow> ('k \<times> 'v list) list" where
  "iteritems order d = map (\<lambda>k. (k, values_of d k)) (iteration order (map fst d))"

text \<open>
  The loop over the groups, the same in the three consumers: \<open>queries_of\<close> gives the
  queries of a group's key (None when the key is not in the dictionary of its entities,
  a KeyError). Nothing catches an exception of \<open>add_queries\<close>: it leaves the loop.
\<close>

fun update_groups :: "env \<Rightarrow> ('k \<Rightarrow> query list option) \<Rightarrow> ('k \<times> link list) list \<Rightarrow> outcome \<times> event list" where
  "update_groups e queries_of [] = (Returned, [])"
| "update_groups e queries_of ((k, ls) # rest) =
     (case queries_of k of
        None \<Rightarrow> (Raised (KeyError ''group''), [])
      | Some queries \<Rightarrow>
          (case add_queries e queries (map Link ls) of
             (Raised err, evs) \<Rightarrow> (Raised err, evs)
           | (Returned, evs) \<Rightarrow>
               (case update_groups e queries_of rest of
                  (out, evs') \<Rightarrow> (out, evs @ evs'))))"

definition author_queries :: "(int \<Rightarrow> account option) \<Rightarrow> int \<Rightarrow> query list option" where
  "author_queries authors_by_id author_id =
     map_option (\<lambda>author. map (\<lambda>sort. get_submitted author sort ''all'') SORTS) (authors_by_id author_id)"

definition subreddit_queries :: "(int \<Rightarrow> subreddit option) \<Rightarrow> int \<Rightarrow> query list option" where
  "subreddit_queries srs_by_id i =
     map_option (\<lambda>sr. map (\<lambda>sort. get_links sr sort ''all'') SORTS) (srs_by_id i)"

definition domain_queries :: "string \<Rightarrow> query list option" where
  "domain_queries d = Some (map (\<lambda>sort. get_domain_links d sort ''all'') SORTS)"

definition author_groups :: "env \<Rightarrow> link list \<Rightarrow> (int \<times> link list) list" where
  "author_groups e ls = iteritems (int_keys_iter e) (group_pairs (map (\<lambda>l. (l_author_id l, l)) ls))"

definition subreddit_groups :: "env \<Rightarrow> link list \<Rightarrow> (int \<times> link list) list" where
  "subreddit_groups e ls = iteritems (int_keys_iter e) (group_pairs (map (\<lambda>l. (l_sr_id l, l)) ls))"

definition domain_groups :: "env \<Rightarrow> link list \<Rightarrow> (string \<times> link list) list" where
  "domain_groups e ls =
     iteritems (str_keys_iter e)
       (group_pairs (concat (map (\<lambda>l. map (\<lambda>d. (d, l)) (domain_permutations e (l_url l))) ls)))"

definition author_process_message :: "env \<Rightarrow> string list \<Rightarrow> outcome \<times> event list" where
  "author_process_message e msgs =
     (let link_names = iteration (set_iter e) msgs
      in case by_fullname (links e) link_names of
           Inl err \<Rightarrow> (Raised err, [])
         | Inr ls \<Rightarrow>
             (let links_by_author_id = author_groups e ls
              in case byID (accounts e) (map fst links_by_author_id) of
                   Inl err \<Rightarrow> (Raised err, [])
                 | Inr authors_by_id \<Rightarrow>
                     update_groups e (author_queries authors_by_id) links_by_author_id))"

definition subreddit_process_message :: "env \<Rightarrow> string list \<Rightarrow> outcome \<times> event list" where
  "subreddit_process_message e msgs =
     (let link_names = iteration (set_iter e) msgs
      in case by_fullname (links e) link_names of
           Inl err \<Rightarrow> (Raised err, [])
         | Inr ls \<Rightarrow>
             (let links_by_sr_id = subreddit_groups e ls
              in case byID (subreddits e) (map fst links_by_sr_id) of
                   Inl err \<Rightarrow> (Raised err, [])
                 | Inr srs_by_id \<Rightarrow>
                     update_groups e (subreddit_queries srs_by_id) links_by_sr_id))"

definition domain_process_message :: "env \<Rightarrow> string list \<Rightarrow> outcome \<times> event list" where
  "domain_process_message e msgs =
     (let link_names = iteration (set_iter e) msgs
      in case by_fullname (links e) link_names of
           Inl err \<Rightarrow> (Raised err, [])
         | Inr ls \<Rightarrow> update_groups e domain_queries (domain_groups e ls))"

text \<open>The three functions under their decorator, each with the default name of its queue.\<close>

definition decorated_author_process_message :: "env \<Rightarrow> string list \<Rightarrow> outcome \<times> event list" where
  "decorated_author_process_message e msgs =
     (case author_process_message e msgs of
        (out, evs) \<Rightarrow> (out, amqp_processor ''author_query_q'' evs))"

definition decorated_subreddit_process_message :: "env \<Rightarrow> string list \<Rightarrow> outcome \<times> event list" where
  "decorated_subreddit_process_message e msgs =
     (case subreddit_process_message e msgs of
        (out, evs) \<Rightarrow> (out, amqp_processor ''subreddit_query_q'' evs))"

definition decorated_domain_process_message :: "env \<Rightarrow> string list \<Rightarrow> outcome \<times> event list" where
  "decorated_domain_process_message e msgs =
     (case domain_process_message e msgs of
        (out, evs) \<Rightarrow> (out, amqp_processor ''domain_query_q'' evs))"

section \<open>Reading a trace\<close>

fun is_commit :: "event \<Rightarrow> bool" where
  "is_commit (VoteCommit u t d) = True"
| "is_commit ev = False"

fun is_mutate :: "event \<Rightarrow> bool" where
  "is_mutate (Mutate m) = True"
| "is_mutate ev = False"

fun is_lock :: "event \<Rightarrow> bool" where
  "is_lock (LockAcquire ns k t) = True"
| "is_lock (LockRelease ns k) = True"
| "is_lock ev = False"

fun is_add_item :: "event \<Rightarrow> bool" where
  "is_add_item (AddItem q b) = True"
| "is_add_item ev = False"

fun is_add_queries :: "event \<Rightarrow> bool" where
  "is_add_queries (AddQueries qs items) = True"
| "is_add_queries ev = False"

text \<open>
  \<open>in_lock ns k t held evs\<close>: every commit of a vote and every mutation of a cached query
  in \<open>evs\<close> happens while the lock \<open>k\<close> of namespace \<open>ns\<close> is held, and the lock is only
  ever taken with timeout \<open>t\<close>.
\<close>

fun in_lock :: "string \<Rightarrow> string \<Rightarrow> int \<Rightarrow> bool \<Rightarrow> event list \<Rightarrow> bool" where
  "in_lock ns k t held [] = True"
| "in_lock ns k t held (LockAcquire ns' k' t' # evs) =
     (if ns' = ns \<and> k' = k then t' = t \<and> in_lock ns k t True evs else in_lock ns k t held evs)"
| "in_lock ns k t held (LockRelease ns' k' # evs) =
     (if ns' = ns \<and> k' = k then in_lock ns k t False evs else in_lock ns k t held evs)"
| "in_lock ns k t held (VoteCommit u th d # evs) = (held \<and> in_lock ns k t held evs)"
| "in_lock ns k t held (Mutate m # evs) = (held \<and> in_lock ns k t held evs)"
| "in_lock ns k t held (ev # evs) = in_lock ns k t held evs"

text \<open>The direction of the last commit of a vote of \<open>u\<close> on \<open>t\<close> in a trace.\<close>

fun last_commit :: "int \<Rightarrow> string \<Rightarrow> event list \<Rightarrow> direction option" where
  "last_commit u t [] = None"
| "last_commit u t (VoteCommit u' t' d # evs) =
     (case last_commit u t evs of
        Some d' \<Rightarrow> Some d'
      | None \<Rightarrow> (if u' = u \<and> t' = t then Some d else None))"
| "last_commit u t (ev # evs) = last_commit u t evs"

text \<open>The items that a trace hands to \<open>add_queries\<close>, one list for each call.\<close>

fun inserted_items :: "event list \<Rightarrow> thing list list" where
  "inserted_items [] = []"
| "inserted_items (AddQueries qs items # evs) = items # inserted_items evs"
| "inserted_items (ev # evs) = inserted_items evs"

text \<open>
  A lookup by fullname is well formed when the link it gives for a name has that name.
\<close>

definition links_by_name :: "env \<Rightarrow> bool" where
  "links_by_name e = (\<forall>n l. links e n = Some l \<longrightarrow> l_fullname l = n)"

section \<open>A small instance\<close>

definition alice :: account where
  "alice = \<lparr>a_id = 1, a_id36 = ''1'', a_fullname = ''t2_1''\<rparr>"

definition bob :: account where
  "bob = \<lparr>a_id = 2, a_id36 = ''2'', a_fullname = ''t2_2''\<rparr>"

definition link_a :: link where
  "link_a = \<lparr>l_fullname = ''t3_a'', l_author_id = 1, l_sr_id = 7,
             l_url = ''http://www.example.com/a'', l_spam = False, l_deleted = False,
             l_is_votable = True\<rparr>"

definition link_b :: link where
  "link_b = \<lparr>l_fullname = ''t3_b'', l_author_id = 2, l_sr_id = 7,
             l_url = ''self'', l_spam = False, l_deleted = False, l_is_votable = True\<rparr>"

definition carol :: account where
  "carol = \<lparr>a_id = 3, a_id36 = ''3'', a_fullname = ''t2_3''\<rparr>"

definition link_c :: link where
  "link_c = \<lparr>l_fullname = ''t3_c'', l_author_id = 3, l_sr_id = 8,
             l_url = ''http://example.org/c'', l_spam = False, l_deleted = False,
             l_is_votable = True\<rparr>"

definition comment_c :: comment where
  "comment_c = \<lparr>c_fullname = ''t1_c'', c_author_id = 2, c_num_votes = 5,
                c_spam = False, c_deleted = False, c_is_votable = True\<rparr>"

definition globals0 :: globals where
  "globals0 = \<lparr>vote_queue_grace_period_seconds = 60,
               shard_author_query_queues = True,
               shard_subreddit_query_queues = False,
               shard_domain_query_queues = True,
               running_as_script = False,
               comment_vote_update_threshold = 5,
               comment_vote_update_period = 3\<rparr>"

text \<open>
  The hook of the instance flags a dictionary without a date and every payload that is not
  a dictionary. Its dictionaries with the integer keys of the instance are iterated in
  ascending order, as CPython 2 does for a few small integers.
\<close>

definition env0 :: env where
  "env0 = \<lparr>g = globals0,
           accounts = [1 \<mapsto> alice, 2 \<mapsto> bob, 3 \<mapsto> carol],
           subreddits = [7 \<mapsto> \<lparr>sr_id = 7, sr_name = ''pics''\<rparr>, 8 \<mapsto> \<lparr>sr_id = 8, sr_name = ''news''\<rparr>],
           links = [''t3_a'' \<mapsto> link_a, ''t3_b'' \<mapsto> link_b, ''t3_c'' \<mapsto> link_c],
           comments = [''t1_c'' \<mapsto> comment_c],
           validate_vote_data =
             (\<lambda>p. case p of
                    JsonObject vd \<Rightarrow> (if vd_date vd = None then Some False else None)
                  | NotJson \<Rightarrow> None
                  | JsonArray \<Rightarrow> Some False
                  | JsonScalar \<Rightarrow> Some False),
           domain_permutations =
             (\<lambda>u. if u = ''http://www.example.com/a'' then [''example.com'', ''www.example.com'']
                  else if u = ''http://example.org/c'' then [''example.org'']
                  else []),
           hostname = (\<lambda>u. if u = ''http://www.example.com/a'' then Some ''www.example.com'' else None),
           py_hash = (\<lambda>h. 23),
           serialize_direction = (\<lambda>d. case d of Up \<Rightarrow> 1 | Down \<Rightarrow> - 1 | Unvote \<Rightarrow> 0),
           last_modified_name = (\<lambda>c. case c of LinkClass \<Rightarrow> ''LinkVotesByAccount'' | CommentClass \<Rightarrow> ''CommentVotesByAccount''),
           vote_queue_name = (\<lambda>c. case c of LinkClass \<Rightarrow> ''vote_link_q'' | CommentClass \<Rightarrow> ''vote_comment_q''),
           add_queries_raises = (\<lambda>qs. False),
           utcfromtimestamp_ok = (\<lambda>t. 0 \<le> t \<and> t < 253402300800),
           set_iter = (\<lambda>ks. ks),
           str_keys_iter = (\<lambda>ks. ks),
           int_keys_iter = (\<lambda>ks. [1, 2, 3, 7, 8])\<rparr>"

text \<open>The same environment, where the listings of alice's submissions cannot be updated.\<close>

definition env1 :: env where
  "env1 = env0\<lparr>add_queries_raises := (\<lambda>qs. qs = map (\<lambda>sort. get_submitted alice sort ''all'') SORTS)\<rparr>"

text \<open>And where those of bob's submissions cannot.\<close>

definition env2 :: env where
  "env2 = env0\<lparr>add_queries_raises := (\<lambda>qs. qs = map (\<lambda>sort. get_submitted bob sort ''all'') SORTS)\<rparr>"

definition state0 :: state where
  "state0 = \<lparr>votes = Map.empty, listings = (\<lambda>q. {})\<rparr>"

definition vote_msg :: "int \<Rightarrow> string \<Rightarrow> direction \<Rightarrow> vote_data" where
  "vote_msg uid fullname dir =
     \<lparr>vd_user_id = Some uid, vd_thing_fullname = Some fullname, vd_direction = Some dir,
      vd_date = Some 1000, vd_data = Some []\<rparr>"


definition fine :: conditions where
  "fine = \<lparr>lock_acquired = True, affects_score = True\<rparr>"

definition no_effect :: conditions where
  "no_effect = \<lparr>lock_acquired = True, affects_score = False\<rparr>"

definition vote_up_to_down :: vote where
  "vote_up_to_down = \<lparr>v_user = alice, v_thing = ''t3_b'', v_direction = Down, v_date = 1000,
     v_previous_vote = Some Up, v_is_automatic_initial_vote = False, v_affects_score = True\<rparr>"

definition state1 :: state where
  "state1 = \<lparr>votes = [(1, ''t3_b'') \<mapsto> \<lparr>sv_direction = Up, sv_date = 900\<rparr>],
             listings = (\<lambda>q. if q = get_liked alice then {''t3_b''} else {})\<rparr>"

text \<open>Conditions and events that the statements below refer to.\<close>

definition quiet :: "event \<Rightarrow> bool" where
  "quiet ev = (\<not> is_commit ev \<and> \<not> is_mutate ev \<and> \<not> is_add_item ev \<and> \<not> is_add_queries ev)"

definition link_commits :: "env \<Rightarrow> conditions \<Rightarrow> vote_data \<Rightarrow> bool" where
  "link_commits e c vd =
     (validate_vote_data e (JsonObject vd) \<noteq> Some False \<and> lock_acquired c
      \<and> vd_direction vd \<noteq> None \<and> vd_data vd \<noteq> None
      \<and> (case vd_date vd of None \<Rightarrow> False | Some date \<Rightarrow> utcfromtimestamp_ok e date)
      \<and> (case vd_user_id vd of None \<Rightarrow> False | Some uid \<Rightarrow> accounts e uid \<noteq> None)
      \<and> (case vd_thing_fullname vd of None \<Rightarrow> False
          | Some fullname \<Rightarrow> (case links e fullname of None \<Rightarrow> False | Some lnk \<Rightarrow> l_is_votable lnk)))"

definition comment_commits :: "env \<Rightarrow> vote_data \<Rightarrow> bool" where
  "comment_commits e vd =
     (validate_vote_data e (JsonObject vd) \<noteq> Some False
      \<and> vd_direction vd \<noteq> None \<and> vd_data vd \<noteq> None
      \<and> (case vd_date vd of None \<Rightarrow> False | Some date \<Rightarrow> utcfromtimestamp_ok e date)
      \<and> (case vd_user_id vd of None \<Rightarrow> False | Some uid \<Rightarrow> accounts e uid \<noteq> None)
      \<and> (case vd_thing_fullname vd of None \<Rightarrow> False
          | Some fullname \<Rightarrow> (case comments e fullname of None \<Rightarrow> False | Some cm \<Rightarrow> c_is_votable cm)))"

fun is_domain_item :: "event \<Rightarrow> bool" where
  "is_domain_item (AddItem q b) = (take 12 q = ''domain_query'')"
| "is_domain_item ev = False"

definition state2 :: state where
  "state2 = \<lparr>votes = [(2, ''t3_a'') \<mapsto> \<lparr>sv_direction = Up, sv_date = 900\<rparr>],
             listings = (\<lambda>q. if q = get_liked bob then {''t3_a''} else {})\<rparr>"

definition locked_out :: conditions where
  "locked_out = \<lparr>lock_acquired = False, affects_score = True\<rparr>"

definition deliveries0 :: "(conditions \<times> payload) list" where
  "deliveries0 =
     [(fine, JsonObject (vote_msg 2 ''t3_a'' Up)), (fine, JsonObject (vote_msg 2 ''t3_a'' Down)),
      (locked_out, JsonObject (vote_msg 2 ''t3_a'' Up)), (fine, JsonObject (vote_msg 2 ''t3_a'' Down))]"

text \<open>
  A group is updated when its key has queries and \<open>add_queries\<close> does not raise on them;
  \<open>group_events\<close> are the calls of \<open>add_queries\<close> for a list of groups.
\<close>

definition group_ok :: "env \<Rightarrow> ('k \<Rightarrow> query list option) \<Rightarrow> 'k \<times> link list \<Rightarrow> bool" where
  "group_ok e queries_of kl =
     (case queries_of (fst kl) of None \<Rightarrow> False | Some qs \<Rightarrow> \<not> add_queries_raises e qs)"

definition group_events :: "('k \<Rightarrow> query list option) \<Rightarrow> ('k \<times> link list) list \<Rightarrow> event list" where
  "group_events queries_of groups =
     concat (map (\<lambda>kl. case queries_of (fst kl) of
                          None \<Rightarrow> []
                        | Some qs \<Rightarrow> [AddQueries qs (map Link (snd kl))]) groups)"

section \<open>Properties\<close>

subsection \<open>The liked and disliked listings\<close>

lemma listings_CachedQueryMutator:
  "listings (snd (CachedQueryMutator ms st)) = foldl apply_mutation (listings st) ms"
  by (simp add: CachedQueryMutator_def)

lemma votes_CachedQueryMutator: "votes (snd (CachedQueryMutator ms st)) = votes st"
  by (simp add: CachedQueryMutator_def)

lemma update_user_liked_mutations_eq:
  "update_user_liked_mutations v =
     (if v_previous_vote v = Some Up then [m_delete (get_liked (v_user v)) (v_thing v)]
      else if v_previous_vote v = Some Down then [m_delete (get_disliked (v_user v)) (v_thing v)]
      else [])
     @ (if v_direction v = Up then [m_insert (get_liked (v_user v)) (v_thing v)]
        else if v_direction v = Down then [m_insert (get_disliked (v_user v)) (v_thing v)]
        else [])"
  by (cases "v_previous_vote v")
     (auto simp: update_user_liked_mutations_def is_upvote_def is_downvote_def)

text \<open>
  C3. \<open>update_user_liked\<close> hands the mutator first the removal of the target from the
  listing of the previous vote's direction (liked for up, disliked for down, nothing when
  there is no previous vote or it was an unvote), then the insertion into the listing of the
  new direction (liked iff up, disliked iff down). Afterwards the target is in the liked
  listing iff the new direction is up, or it was there and the previous vote was not up; the
  same for disliked and down. After a change from up to down the liked listing does not hold
  the target and the disliked listing does.
\<close>

theorem update_user_liked_listing:
  "fst (update_user_liked v st) =
     map Mutate
       ((if v_previous_vote v = Some Up then [m_delete (get_liked (v_user v)) (v_thing v)]
         else if v_previous_vote v = Some Down then [m_delete (get_disliked (v_user v)) (v_thing v)]
         else [])
        @ (if v_direction v = Up then [m_insert (get_liked (v_user v)) (v_thing v)]
           else if v_direction v = Down then [m_insert (get_disliked (v_user v)) (v_thing v)]
           else []))
   \<and> (v_thing v \<in> listings (snd (update_user_liked v st)) (get_liked (v_user v))
        \<longleftrightarrow> v_direction v = Up
            \<or> (v_previous_vote v \<noteq> Some Up \<and> v_thing v \<in> listings st (get_liked (v_user v))))
   \<and> (v_thing v \<in> listings (snd (update_user_liked v st)) (get_disliked (v_user v))
        \<longleftrightarrow> v_direction v = Down
            \<or> (v_previous_vote v \<noteq> Some Down \<and> v_thing v \<in> listings st (get_disliked (v_user v))))
   \<and> (v_previous_vote v = Some Up \<and> v_direction v = Down
        \<longrightarrow> v_thing v \<notin> listings (snd (update_user_liked v st)) (get_liked (v_user v))
            \<and> v_thing v \<in> listings (snd (update_user_liked v st)) (get_disliked (v_user v)))"
proof -
  have ev: "fst (update_user_liked v st) = map Mutate (update_user_liked_mutations v)"
    by (simp add: update_user_liked_def CachedQueryMutator_def)
  have ls: "listings (snd (update_user_liked v st))
      = foldl apply_mutation (listings st) (update_user_liked_mutations v)"
    by (simp add: update_user_liked_def listings_CachedQueryMutator)
  show ?thesis
    unfolding ev ls unfolding update_user_liked_mutations_eq
    by (cases "v_direction v") auto
qed

theorem update_user_liked_listing_witness:
  "''t3_b'' \<in> listings state1 (get_liked alice)
   \<and> ''t3_b'' \<notin> listings (snd (update_user_liked vote_up_to_down state1)) (get_liked alice)
   \<and> ''t3_b'' \<in> listings (snd (update_user_liked vote_up_to_down state1)) (get_disliked alice)"
  using update_user_liked_listing [of vote_up_to_down state1]
  by (simp add: vote_up_to_down_def state1_def alice_def)

subsection \<open>The paths of the link vote consumer\<close>

lemma link_process_message_commits:
  assumes "validate_vote_data e (JsonObject vd) \<noteq> Some False"
    and "vd_user_id vd = Some uid" and "accounts e uid = Some user"
    and "vd_thing_fullname vd = Some fullname" and "links e fullname = Some lnk"
    and "lock_acquired c"
    and "vd_direction vd = Some dir" and "vd_date vd = Some date" and "utcfromtimestamp_ok e date"
    and "vd_data vd = Some data"
    and "l_is_votable lnk"
  shows "link_process_message e c (JsonObject vd) st =
    (Returned,
     [TimerStart ''link_vote_processor'', LockAcquire ''voting'' (link_lock_key user lnk) 5,
      Print_processing, VoteCommit (a_id user) (l_fullname lnk) dir,
      TimerIntermediate ''link_vote_processor'' ''create_vote_object'']
     @ map Mutate (update_user_liked_mutations (new_vote st (affects_score c) user (l_fullname lnk) dir date))
     @ [TimerIntermediate ''link_vote_processor'' ''voter_likes'',
        LockRelease ''voting'' (link_lock_key user lnk)]
     @ link_fan_out e (new_vote st (affects_score c) user (l_fullname lnk) dir date) lnk
     @ [TimerStop ''link_vote_processor'', TimerFlush ''link_vote_processor''],
     snd (update_user_liked (new_vote st (affects_score c) user (l_fullname lnk) dir date)
            (commit (new_vote st (affects_score c) user (l_fullname lnk) dir date) st)))"
  using assms
  by (simp add: link_process_message_def link_process_vote_data_def link_vote_locked_def Vote_def update_user_liked_def
      CachedQueryMutator_def)

lemma link_process_message_skips:
  assumes "\<not> link_commits e c vd"
  shows "snd (snd (link_process_message e c (JsonObject vd) st)) = st"
    and "list_all quiet (fst (snd (link_process_message e c (JsonObject vd) st)))"
    and "fst (snd (link_process_message e c (JsonObject vd) st)) \<noteq> [] "
  using assms
  by (auto simp: link_commits_def link_process_message_def link_process_vote_data_def link_vote_locked_def Vote_def quiet_def
      split: option.splits if_splits)

lemma link_commitsE:
  assumes "link_commits e c vd"
  obtains uid user fullname lnk dir date data where
    "validate_vote_data e (JsonObject vd) \<noteq> Some False" "vd_user_id vd = Some uid" "accounts e uid = Some user"
    "vd_thing_fullname vd = Some fullname" "links e fullname = Some lnk" "lock_acquired c"
    "vd_direction vd = Some dir" "vd_date vd = Some date" "utcfromtimestamp_ok e date"
    "vd_data vd = Some data" "l_is_votable lnk"
  using assms by (auto simp: link_commits_def split: option.splits)

lemma quiet_no_commit: "list_all quiet evs \<Longrightarrow> \<not> list_ex is_commit evs"
  by (induction evs) (auto simp: quiet_def)

lemma quiet_no_mutate: "list_all quiet evs \<Longrightarrow> \<not> list_ex is_mutate evs"
  by (induction evs) (auto simp: quiet_def)

lemma quiet_no_add_item: "list_all quiet evs \<Longrightarrow> \<not> list_ex is_add_item evs"
  by (induction evs) (auto simp: quiet_def)

lemma quiet_no_add_queries: "list_all quiet evs \<Longrightarrow> \<not> list_ex is_add_queries evs"
  by (induction evs) (auto simp: quiet_def)

lemma link_committed_iff:
  "list_ex is_commit (fst (snd (link_process_message e c (JsonObject vd) st))) \<longleftrightarrow> link_commits e c vd"
proof
  assume "list_ex is_commit (fst (snd (link_process_message e c (JsonObject vd) st)))"
  then show "link_commits e c vd"
    using link_process_message_skips(2) [of e c vd st] quiet_no_commit by blast
next
  assume "link_commits e c vd"
  then show "list_ex is_commit (fst (snd (link_process_message e c (JsonObject vd) st)))"
    by (elim link_commitsE) (simp add: link_process_message_commits)
qed

lemma filter_add_item_Mutate [simp]: "filter is_add_item (map Mutate ms) = []"
  by (induction ms) auto

lemma filter_add_item_fan_out [simp]: "filter is_add_item (link_fan_out e v lnk) = link_fan_out e v lnk"
  by (simp add: link_fan_out_def add_to_author_query_q_def add_to_subreddit_query_q_def
      add_to_domain_query_q_def Let_def)

lemma in_lock_Mutate [simp]: "in_lock ns k t True (map Mutate ms @ evs) = in_lock ns k t True evs"
  by (induction ms) auto

lemma in_lock_fan_out [simp]: "in_lock ns k t h (link_fan_out e v lnk @ evs) = in_lock ns k t h evs"
  by (simp add: link_fan_out_def add_to_author_query_q_def add_to_subreddit_query_q_def
      add_to_domain_query_q_def Let_def)

lemma link_in_lock:
  assumes "vd_user_id vd = Some uid" "accounts e uid = Some user"
    "vd_thing_fullname vd = Some fullname" "links e fullname = Some lnk"
  shows "in_lock ''voting'' (link_lock_key user lnk) 5 False (fst (snd (link_process_message e c (JsonObject vd) st)))"
proof (cases "link_commits e c vd")
  case True
  then show ?thesis
    using assms by (elim link_commitsE) (simp add: link_process_message_commits)
next
  case False
  then show ?thesis
    using assms
    by (auto simp: link_commits_def link_process_message_def link_process_vote_data_def link_vote_locked_def Vote_def
        split: option.splits if_splits)
qed

subsection \<open>The paths of the comment vote consumer\<close>

lemma comment_process_message_commits:
  assumes "validate_vote_data e (JsonObject vd) \<noteq> Some False"
    and "vd_user_id vd = Some uid" and "accounts e uid = Some user"
    and "vd_thing_fullname vd = Some fullname" and "comments e fullname = Some cm"
    and "vd_direction vd = Some dir" and "vd_date vd = Some date" and "utcfromtimestamp_ok e date"
    and "vd_data vd = Some data"
    and "c_is_votable cm"
  shows "comment_process_message e c (JsonObject vd) st =
    (fst (comment_fan_out e (new_vote st (affects_score c) user (c_fullname cm) dir date) cm),
     [TimerStart ''comment_vote_processor'', Print_processing,
      VoteCommit (a_id user) (c_fullname cm) dir,
      TimerIntermediate ''comment_vote_processor'' ''create_vote_object'']
     @ snd (comment_fan_out e (new_vote st (affects_score c) user (c_fullname cm) dir date) cm)
     @ (if fst (comment_fan_out e (new_vote st (affects_score c) user (c_fullname cm) dir date) cm) = Returned
        then [TimerStop ''comment_vote_processor'', TimerFlush ''comment_vote_processor'']
        else []),
     commit (new_vote st (affects_score c) user (c_fullname cm) dir date) st)"
  using assms
  by (simp add: comment_process_message_def comment_process_vote_data_def Vote_def split: prod.splits outcome.splits)

lemma comment_process_message_skips:
  assumes "\<not> comment_commits e vd"
  shows "snd (snd (comment_process_message e c (JsonObject vd) st)) = st"
    and "list_all quiet (fst (snd (comment_process_message e c (JsonObject vd) st)))"
  using assms
  by (auto simp: comment_commits_def comment_process_message_def comment_process_vote_data_def Vote_def quiet_def
      split: option.splits if_splits)

lemma comment_commitsE:
  assumes "comment_commits e vd"
  obtains uid user fullname cm dir date data where
    "validate_vote_data e (JsonObject vd) \<noteq> Some False" "vd_user_id vd = Some uid" "accounts e uid = Some user"
    "vd_thing_fullname vd = Some fullname" "comments e fullname = Some cm"
    "vd_direction vd = Some dir" "vd_date vd = Some date" "utcfromtimestamp_ok e date"
    "vd_data vd = Some data" "c_is_votable cm"
  using assms by (auto simp: comment_commits_def split: option.splits)

lemma comment_committed_iff:
  "list_ex is_commit (fst (snd (comment_process_message e c (JsonObject vd) st))) \<longleftrightarrow> comment_commits e vd"
proof
  assume "list_ex is_commit (fst (snd (comment_process_message e c (JsonObject vd) st)))"
  then show "comment_commits e vd"
    using comment_process_message_skips(2) [of e vd c st] quiet_no_commit by blast
next
  assume "comment_commits e vd"
  then show "list_ex is_commit (fst (snd (comment_process_message e c (JsonObject vd) st)))"
    by (elim comment_commitsE) (simp add: comment_process_message_commits)
qed

lemma comment_score_update_events:
  "snd (comment_score_update e cm) =
     (if c_num_votes cm \<le> comment_vote_update_threshold (g e)
         \<or> (comment_vote_update_period (g e) \<noteq> 0
             \<and> c_num_votes cm mod comment_vote_update_period (g e) = 0)
      then [AddToCommentstreeQ (c_fullname cm)] else [])"
  by (simp add: comment_score_update_def Let_def)

lemma comment_fan_out_no_lock:
  "\<not> list_ex is_lock (snd (comment_fan_out e v cm))"
  "\<not> list_ex is_mutate (snd (comment_fan_out e v cm))"
  "\<not> list_ex is_add_item (snd (comment_fan_out e v cm))"
  by (auto simp: comment_fan_out_def add_queries_def comment_score_update_def Let_def
      split: option.splits prod.splits outcome.splits if_splits)

lemma listings_commit [simp]: "listings (commit v st) = listings st"
  by (simp add: commit_def)

lemma comment_no_lock:
  "\<not> list_ex is_lock (fst (snd (comment_process_message e c (JsonObject vd) st)))
   \<and> \<not> list_ex is_mutate (fst (snd (comment_process_message e c (JsonObject vd) st)))
   \<and> listings (snd (snd (comment_process_message e c (JsonObject vd) st))) = listings st"
proof (cases "comment_commits e vd")
  case True
  then show ?thesis
    by (elim comment_commitsE) (simp add: comment_process_message_commits comment_fan_out_no_lock)
next
  case False
  then show ?thesis
    by (auto simp: comment_commits_def comment_process_message_def comment_process_vote_data_def Vote_def
        split: option.splits if_splits)
qed

subsection \<open>Payloads that are not dictionaries\<close>

lemma link_process_message_no_dictionary:
  assumes "\<forall>vd. p \<noteq> JsonObject vd"
  shows "snd (snd (link_process_message e c p st)) = st"
    and "list_all quiet (fst (snd (link_process_message e c p st)))"
  using assms by (cases p; simp add: link_process_message_def quiet_def)+

lemma comment_process_message_no_dictionary:
  assumes "\<forall>vd. p \<noteq> JsonObject vd"
  shows "snd (snd (comment_process_message e c p st)) = st"
    and "list_all quiet (fst (snd (comment_process_message e c p st)))"
  using assms by (cases p; simp add: comment_process_message_def quiet_def)+

lemma decorated_link_parts:
  "fst (decorated_link_process_message e c p st) = fst (link_process_message e c p st)"
  "fst (snd (decorated_link_process_message e c p st))
     = fst (snd (link_process_message e c p st)) @ [StatsFlush ''vote_link_q'']"
  "snd (snd (decorated_link_process_message e c p st)) = snd (snd (link_process_message e c p st))"
  by (simp_all add: decorated_link_process_message_def amqp_processor_def split: prod.splits)

lemma decorated_comment_parts:
  "fst (decorated_comment_process_message e c p st) = fst (comment_process_message e c p st)"
  "fst (snd (decorated_comment_process_message e c p st))
     = fst (snd (comment_process_message e c p st)) @ [StatsFlush ''vote_comment_q'']"
  "snd (snd (decorated_comment_process_message e c p st)) = snd (snd (comment_process_message e c p st))"
  by (simp_all add: decorated_comment_process_message_def amqp_processor_def split: prod.splits)

subsection \<open>Two traces of the instance\<close>

lemma ex_link_trace:
  "fst (snd (link_process_message env0 fine (JsonObject (vote_msg 2 ''t3_a'' Up)) state0)) =
   [TimerStart ''link_vote_processor'',
    LockAcquire ''voting'' ''vote-2-t3_a'' 5, Print_processing,
    VoteCommit 2 ''t3_a'' Up,
    TimerIntermediate ''link_vote_processor'' ''create_vote_object'',
    Mutate (m_insert (get_liked bob) ''t3_a''),
    TimerIntermediate ''link_vote_processor'' ''voter_likes'',
    LockRelease ''voting'' ''vote-2-t3_a'',
    AddItem ''author_query_1_q'' ''t3_a'',
    AddItem ''subreddit_query_q'' ''t3_a'',
    AddItem ''domain_query_3_q'' ''t3_a'', TimerStop ''link_vote_processor'',
    TimerFlush ''link_vote_processor'']"
  by (simp add: link_process_message_def link_process_vote_data_def link_vote_locked_def Vote_def new_vote_def commit_def
      update_user_liked_def update_user_liked_mutations_def CachedQueryMutator_def
      is_upvote_def is_downvote_def link_lock_key_def link_fan_out_def
      add_to_author_query_q_def add_to_subreddit_query_q_def add_to_domain_query_q_def
      domain_queue_name_def str_of_int_def digit_char_def
      env0_def globals0_def fine_def vote_msg_def state0_def link_a_def bob_def alice_def)

lemma ex_comment_trace:
  "fst (snd (comment_process_message env0 fine (JsonObject (vote_msg 1 ''t1_c'' Up)) state0)) =
   [TimerStart ''comment_vote_processor'', Print_processing,
    VoteCommit 1 ''t1_c'' Up,
    TimerIntermediate ''comment_vote_processor'' ''create_vote_object'',
    AddQueries [get_comments bob ''hot'' ''all'', get_comments bob ''top'' ''all'',
                get_comments bob ''controversial'' ''all''] [Comment comment_c],
    TimerIntermediate ''comment_vote_processor'' ''author_queries'',
    AddToCommentstreeQ ''t1_c'', TimerStop ''comment_vote_processor'',
    TimerFlush ''comment_vote_processor'']"
  by (simp add: comment_process_message_def comment_process_vote_data_def Vote_def new_vote_def commit_def
      comment_fan_out_def add_queries_def comment_score_update_def SORTS_def
      env0_def globals0_def fine_def vote_msg_def state0_def comment_c_def bob_def alice_def)

subsection \<open>The lock of the vote consumers\<close>

lemma filter_lock_Mutate [simp]: "filter is_lock (map Mutate ms) = []"
  by (induction ms) auto

lemma filter_lock_fan_out [simp]: "filter is_lock (link_fan_out e v lnk) = []"
  by (simp add: link_fan_out_def add_to_author_query_q_def add_to_subreddit_query_q_def
      add_to_domain_query_q_def Let_def)

lemma link_lock_section:
  assumes "validate_vote_data e (JsonObject vd) \<noteq> Some False"
    and "vd_user_id vd = Some uid" "accounts e uid = Some user"
    and "vd_thing_fullname vd = Some fullname" "links e fullname = Some lnk"
    and "lock_acquired c"
  shows "take 2 (fst (snd (link_process_message e c (JsonObject vd) st)))
           = [TimerStart ''link_vote_processor'', LockAcquire ''voting'' (link_lock_key user lnk) 5]"
    and "filter is_lock (fst (snd (link_process_message e c (JsonObject vd) st)))
           = [LockAcquire ''voting'' (link_lock_key user lnk) 5,
              LockRelease ''voting'' (link_lock_key user lnk)]"
proof -
  show "take 2 (fst (snd (link_process_message e c (JsonObject vd) st)))
           = [TimerStart ''link_vote_processor'', LockAcquire ''voting'' (link_lock_key user lnk) 5]"
    using assms
    by (simp add: link_process_message_def link_process_vote_data_def split: prod.splits sum.splits)
  show "filter is_lock (fst (snd (link_process_message e c (JsonObject vd) st)))
           = [LockAcquire ''voting'' (link_lock_key user lnk) 5,
              LockRelease ''voting'' (link_lock_key user lnk)]"
  proof (cases "link_commits e c vd")
    case True
    then show ?thesis
      using assms by (elim link_commitsE) (simp add: link_process_message_commits)
  next
    case False
    then show ?thesis
      using assms
      by (auto simp: link_commits_def link_process_message_def link_process_vote_data_def
          link_vote_locked_def Vote_def split: option.splits if_splits)
  qed
qed

lemma link_lock_timeout:
  assumes "validate_vote_data e (JsonObject vd) \<noteq> Some False"
    and "vd_user_id vd = Some uid" "accounts e uid = Some user"
    and "vd_thing_fullname vd = Some fullname" "links e fullname = Some lnk"
    and "\<not> lock_acquired c"
  shows "link_process_message e c (JsonObject vd) st
           = (Raised TimeoutExpired, [TimerStart ''link_vote_processor''], st)"
  using assms by (simp add: link_process_message_def link_process_vote_data_def)

lemma link_committing_trace:
  assumes "vd_user_id vd = Some uid" "accounts e uid = Some user"
    and "vd_thing_fullname vd = Some fullname" "links e fullname = Some lnk"
    and "list_ex is_commit (fst (snd (link_process_message e c (JsonObject vd) st)))"
  shows "\<exists>dir date.
    link_process_message e c (JsonObject vd) st =
    (Returned,
     [TimerStart ''link_vote_processor'', LockAcquire ''voting'' (link_lock_key user lnk) 5,
      Print_processing, VoteCommit (a_id user) (l_fullname lnk) dir,
      TimerIntermediate ''link_vote_processor'' ''create_vote_object'']
     @ map Mutate (update_user_liked_mutations (new_vote st (affects_score c) user (l_fullname lnk) dir date))
     @ [TimerIntermediate ''link_vote_processor'' ''voter_likes'',
        LockRelease ''voting'' (link_lock_key user lnk)]
     @ link_fan_out e (new_vote st (affects_score c) user (l_fullname lnk) dir date) lnk
     @ [TimerStop ''link_vote_processor'', TimerFlush ''link_vote_processor''],
     snd (update_user_liked (new_vote st (affects_score c) user (l_fullname lnk) dir date)
            (commit (new_vote st (affects_score c) user (l_fullname lnk) dir date) st)))"
proof -
  from assms(5) have "link_commits e c vd" by (simp add: link_committed_iff)
  then show ?thesis
  proof (elim link_commitsE)
    fix uid' user' fullname' lnk' dir date data
    assume h: "validate_vote_data e (JsonObject vd) \<noteq> Some False" "vd_user_id vd = Some uid'"
      "accounts e uid' = Some user'" "vd_thing_fullname vd = Some fullname'"
      "links e fullname' = Some lnk'" "lock_acquired c" "vd_direction vd = Some dir"
      "vd_date vd = Some date" "utcfromtimestamp_ok e date" "vd_data vd = Some data"
      "l_is_votable lnk'"
    from h(2-5) assms(1-4) have same: "user' = user" "lnk' = lnk" by simp_all
    show ?thesis
      using link_process_message_commits [OF h(1) assms(1-4) h(6-10)] h(11) same by blast
  qed
qed

text \<open>
  C2, as the code has it. The link consumer takes the lock \<open>vote-<actor id36>-<target
  fullname>\<close> of the namespace \<open>voting\<close> with timeout 5 for every message that passes the
  validation and whose actor and target are found: its trace then begins with the start of
  the timer and the acquisition, and holds one acquisition and one release; when the lock
  is not acquired in time the function raises and nothing is committed. A message that
  commits has the trace: acquisition, commit of the vote, the mutations of
  \<open>update_user_liked\<close>, release, and then the fan-out; its state is the committed vote and
  the updated listings, so the commit and the update of the liked and disliked listing are
  both made, in one scope of the lock. Every commit of a vote and every mutation of a
  listing in any trace happens while that lock is held, and when nothing is committed, no
  listing is mutated and the state is the one before. The comment consumer takes no lock
  and never touches the liked and disliked listings: it commits the vote outside of any
  lock.
\<close>

theorem link_vote_under_lock:
  "(vd_user_id vd = Some uid \<and> accounts e uid = Some user
      \<and> vd_thing_fullname vd = Some fullname \<and> links e fullname = Some lnk
    \<longrightarrow> in_lock ''voting'' (''vote-'' @ a_id36 user @ ''-'' @ l_fullname lnk) 5 False
          (fst (snd (link_process_message e c (JsonObject vd) st)))
        \<and> (list_ex is_commit (fst (snd (link_process_message e c (JsonObject vd) st)))
             \<longrightarrow> take 2 (fst (snd (link_process_message e c (JsonObject vd) st)))
                   = [TimerStart ''link_vote_processor'',
                      LockAcquire ''voting'' (''vote-'' @ a_id36 user @ ''-'' @ l_fullname lnk) 5]
                 \<and> LockRelease ''voting'' (''vote-'' @ a_id36 user @ ''-'' @ l_fullname lnk)
                     \<in> set (fst (snd (link_process_message e c (JsonObject vd) st)))))
   \<and> (\<not> list_ex is_commit (fst (snd (link_process_message e c p st)))
        \<longrightarrow> \<not> list_ex is_mutate (fst (snd (link_process_message e c p st)))
            \<and> snd (snd (link_process_message e c p st)) = st)
   \<and> \<not> list_ex is_lock (fst (snd (comment_process_message e c p st)))
   \<and> \<not> list_ex is_mutate (fst (snd (comment_process_message e c p st)))
   \<and> listings (snd (snd (comment_process_message e c p st))) = listings st
   \<and> (validate_vote_data e (JsonObject vd) \<noteq> Some False
        \<and> vd_user_id vd = Some uid \<and> accounts e uid = Some user
        \<and> vd_thing_fullname vd = Some fullname \<and> links e fullname = Some lnk
        \<and> lock_acquired c
        \<and> vd_direction vd = Some dir \<and> vd_date vd = Some date \<and> utcfromtimestamp_ok e date
        \<and> vd_data vd = Some data \<and> l_is_votable lnk
      \<longrightarrow> link_process_message e c (JsonObject vd) st =
            (Returned,
             [TimerStart ''link_vote_processor'',
              LockAcquire ''voting'' (''vote-'' @ a_id36 user @ ''-'' @ l_fullname lnk) 5,
              Print_processing, VoteCommit (a_id user) (l_fullname lnk) dir,
              TimerIntermediate ''link_vote_processor'' ''create_vote_object'']
             @ map Mutate (update_user_liked_mutations
                             (new_vote st (affects_score c) user (l_fullname lnk) dir date))
             @ [TimerIntermediate ''link_vote_processor'' ''voter_likes'',
                LockRelease ''voting'' (''vote-'' @ a_id36 user @ ''-'' @ l_fullname lnk)]
             @ link_fan_out e (new_vote st (affects_score c) user (l_fullname lnk) dir date) lnk
             @ [TimerStop ''link_vote_processor'', TimerFlush ''link_vote_processor''],
             snd (update_user_liked (new_vote st (affects_score c) user (l_fullname lnk) dir date)
                    (commit (new_vote st (affects_score c) user (l_fullname lnk) dir date) st))))
   \<and> (vd_user_id vd = Some uid \<and> accounts e uid = Some user
        \<and> vd_thing_fullname vd = Some fullname \<and> links e fullname = Some lnk
        \<and> list_ex is_commit (fst (snd (link_process_message e c (JsonObject vd) st)))
      \<longrightarrow> (\<exists>dir date.
            link_process_message e c (JsonObject vd) st =
            (Returned,
             [TimerStart ''link_vote_processor'',
              LockAcquire ''voting'' (''vote-'' @ a_id36 user @ ''-'' @ l_fullname lnk) 5,
              Print_processing, VoteCommit (a_id user) (l_fullname lnk) dir,
              TimerIntermediate ''link_vote_processor'' ''create_vote_object'']
             @ map Mutate (update_user_liked_mutations
                             (new_vote st (affects_score c) user (l_fullname lnk) dir date))
             @ [TimerIntermediate ''link_vote_processor'' ''voter_likes'',
                LockRelease ''voting'' (''vote-'' @ a_id36 user @ ''-'' @ l_fullname lnk)]
             @ link_fan_out e (new_vote st (affects_score c) user (l_fullname lnk) dir date) lnk
             @ [TimerStop ''link_vote_processor'', TimerFlush ''link_vote_processor''],
             snd (update_user_liked (new_vote st (affects_score c) user (l_fullname lnk) dir date)
                    (commit (new_vote st (affects_score c) user (l_fullname lnk) dir date) st)))))
   \<and> (validate_vote_data e (JsonObject vd) \<noteq> Some False
        \<and> vd_user_id vd = Some uid \<and> accounts e uid = Some user
        \<and> vd_thing_fullname vd = Some fullname \<and> links e fullname = Some lnk
        \<and> lock_acquired c
      \<longrightarrow> take 2 (fst (snd (link_process_message e c (JsonObject vd) st)))
            = [TimerStart ''link_vote_processor'',
               LockAcquire ''voting'' (''vote-'' @ a_id36 user @ ''-'' @ l_fullname lnk) 5]
          \<and> filter is_lock (fst (snd (link_process_message e c (JsonObject vd) st)))
              = [LockAcquire ''voting'' (''vote-'' @ a_id36 user @ ''-'' @ l_fullname lnk) 5,
                 LockRelease ''voting'' (''vote-'' @ a_id36 user @ ''-'' @ l_fullname lnk)])
   \<and> (validate_vote_data e (JsonObject vd) \<noteq> Some False
        \<and> vd_user_id vd = Some uid \<and> accounts e uid = Some user
        \<and> vd_thing_fullname vd = Some fullname \<and> links e fullname = Some lnk
        \<and> \<not> lock_acquired c
      \<longrightarrow> link_process_message e c (JsonObject vd) st
            = (Raised TimeoutExpired, [TimerStart ''link_vote_processor''], st))"
proof -
  have a: "in_lock ''voting'' (''vote-'' @ a_id36 user @ ''-'' @ l_fullname lnk) 5 False
          (fst (snd (link_process_message e c (JsonObject vd) st)))"
    if "vd_user_id vd = Some uid" "accounts e uid = Some user"
       "vd_thing_fullname vd = Some fullname" "links e fullname = Some lnk"
    using link_in_lock [OF that] by (simp add: link_lock_key_def)
  have b: "take 2 (fst (snd (link_process_message e c (JsonObject vd) st)))
             = [TimerStart ''link_vote_processor'',
                LockAcquire ''voting'' (''vote-'' @ a_id36 user @ ''-'' @ l_fullname lnk) 5]
           \<and> LockRelease ''voting'' (''vote-'' @ a_id36 user @ ''-'' @ l_fullname lnk)
               \<in> set (fst (snd (link_process_message e c (JsonObject vd) st)))"
    if "vd_user_id vd = Some uid" "accounts e uid = Some user"
       "vd_thing_fullname vd = Some fullname" "links e fullname = Some lnk"
       "list_ex is_commit (fst (snd (link_process_message e c (JsonObject vd) st)))"
  proof -
    from that(5) have "link_commits e c vd" by (simp add: link_committed_iff)
    then show ?thesis
      using that(1-4)
      by (elim link_commitsE) (simp add: link_process_message_commits link_lock_key_def)
  qed
  have d: "\<not> list_ex is_mutate (fst (snd (link_process_message e c p st)))
            \<and> snd (snd (link_process_message e c p st)) = st"
    if nc: "\<not> list_ex is_commit (fst (snd (link_process_message e c p st)))"
  proof (cases "\<exists>vd'. p = JsonObject vd'")
    case True
    then obtain vd' where p: "p = JsonObject vd'" by blast
    from nc have "\<not> link_commits e c vd'" by (simp add: p link_committed_iff)
    then show ?thesis
      unfolding p using link_process_message_skips [of e c vd' st] quiet_no_mutate by blast
  next
    case False
    then have "\<forall>vd'. p \<noteq> JsonObject vd'" by blast
    then show ?thesis
      using link_process_message_no_dictionary [of p e c st] quiet_no_mutate by blast
  qed
  have cm: "\<not> list_ex is_lock (fst (snd (comment_process_message e c p st)))
     \<and> \<not> list_ex is_mutate (fst (snd (comment_process_message e c p st)))
     \<and> listings (snd (snd (comment_process_message e c p st))) = listings st"
  proof (cases p)
    case (JsonObject vd')
    then show ?thesis using comment_no_lock [of e c vd' st] by simp
  qed (simp_all add: comment_process_message_def)
  show ?thesis
    apply (intro conjI)
    subgoal using a b by blast
    subgoal using d by blast
    subgoal using cm by blast
    subgoal using cm by blast
    subgoal using cm by blast
    subgoal
      by (intro impI, elim conjE)
         (simp add: link_process_message_commits link_lock_key_def)
    subgoal
      using link_committing_trace [of vd uid e user fullname lnk c st]
      by (simp add: link_lock_key_def)
    subgoal
      using link_lock_section [of e vd uid user fullname lnk c st]
      by (simp add: link_lock_key_def)
    subgoal
      using link_lock_timeout [of e vd uid user fullname lnk c st] by blast
    done
qed

theorem link_vote_under_lock_witness:
  "in_lock ''voting'' ''vote-2-t3_a'' 5 False
     (fst (snd (link_process_message env0 fine (JsonObject (vote_msg 2 ''t3_a'' Up)) state0)))
   \<and> list_ex is_commit (fst (snd (link_process_message env0 fine (JsonObject (vote_msg 2 ''t3_a'' Up)) state0)))
   \<and> LockRelease ''voting'' ''vote-2-t3_a''
       \<in> set (fst (snd (link_process_message env0 fine (JsonObject (vote_msg 2 ''t3_a'' Up)) state0)))
   \<and> fst (snd (link_process_message env0 fine (JsonObject (vote_msg 2 ''t3_a'' Up)) state0))
       = [TimerStart ''link_vote_processor'', LockAcquire ''voting'' ''vote-2-t3_a'' 5,
          Print_processing, VoteCommit 2 ''t3_a'' Up,
          TimerIntermediate ''link_vote_processor'' ''create_vote_object'',
          Mutate (m_insert (get_liked bob) ''t3_a''),
          TimerIntermediate ''link_vote_processor'' ''voter_likes'',
          LockRelease ''voting'' ''vote-2-t3_a'',
          AddItem ''author_query_1_q'' ''t3_a'', AddItem ''subreddit_query_q'' ''t3_a'',
          AddItem ''domain_query_3_q'' ''t3_a'',
          TimerStop ''link_vote_processor'', TimerFlush ''link_vote_processor'']
   \<and> ''t3_a'' \<in> listings (snd (snd (link_process_message env0 fine (JsonObject (vote_msg 2 ''t3_a'' Up)) state0)))
                  (get_liked bob)
   \<and> filter is_lock (fst (snd (link_process_message env0 fine (JsonObject (vote_msg 2 ''t3_a'' Up)) state0)))
       = [LockAcquire ''voting'' ''vote-2-t3_a'' 5, LockRelease ''voting'' ''vote-2-t3_a'']
   \<and> link_process_message env0 locked_out (JsonObject (vote_msg 2 ''t3_a'' Up)) state0
       = (Raised TimeoutExpired, [TimerStart ''link_vote_processor''], state0)"
proof -
  have h: "vd_user_id (vote_msg 2 ''t3_a'' Up) = Some 2 \<and> accounts env0 2 = Some bob
      \<and> vd_thing_fullname (vote_msg 2 ''t3_a'' Up) = Some ''t3_a'' \<and> links env0 ''t3_a'' = Some link_a"
    by (simp add: vote_msg_def env0_def)
  have v: "validate_vote_data env0 (JsonObject (vote_msg 2 ''t3_a'' Up)) \<noteq> Some False
      \<and> vd_direction (vote_msg 2 ''t3_a'' Up) = Some Up \<and> vd_date (vote_msg 2 ''t3_a'' Up) = Some 1000
      \<and> utcfromtimestamp_ok env0 1000 \<and> vd_data (vote_msg 2 ''t3_a'' Up) = Some []
      \<and> l_is_votable link_a \<and> lock_acquired fine \<and> \<not> lock_acquired locked_out"
    by (simp add: vote_msg_def env0_def link_a_def fine_def locked_out_def)
  have k: "''vote-'' @ a_id36 bob @ ''-'' @ l_fullname link_a = ''vote-2-t3_a''"
    by (simp add: bob_def link_a_def)
  have full: "link_process_message env0 fine (JsonObject (vote_msg 2 ''t3_a'' Up)) state0 =
            (Returned,
             [TimerStart ''link_vote_processor'', LockAcquire ''voting'' ''vote-2-t3_a'' 5,
              Print_processing, VoteCommit (a_id bob) (l_fullname link_a) Up,
              TimerIntermediate ''link_vote_processor'' ''create_vote_object'']
             @ map Mutate (update_user_liked_mutations
                             (new_vote state0 (affects_score fine) bob (l_fullname link_a) Up 1000))
             @ [TimerIntermediate ''link_vote_processor'' ''voter_likes'',
                LockRelease ''voting'' ''vote-2-t3_a'']
             @ link_fan_out env0 (new_vote state0 (affects_score fine) bob (l_fullname link_a) Up 1000) link_a
             @ [TimerStop ''link_vote_processor'', TimerFlush ''link_vote_processor''],
             snd (update_user_liked (new_vote state0 (affects_score fine) bob (l_fullname link_a) Up 1000)
                    (commit (new_vote state0 (affects_score fine) bob (l_fullname link_a) Up 1000) state0)))"
    using h v
      link_vote_under_lock [where vd = "vote_msg 2 ''t3_a'' Up" and uid = 2 and e = env0
        and user = bob and fullname = "''t3_a''" and lnk = link_a and c = fine and st = state0
        and dir = Up and date = 1000 and data = "[]" and p = NotJson]
    unfolding k by blast
  have tr: "fst (snd (link_process_message env0 fine (JsonObject (vote_msg 2 ''t3_a'' Up)) state0))
       = [TimerStart ''link_vote_processor'', LockAcquire ''voting'' ''vote-2-t3_a'' 5,
          Print_processing, VoteCommit 2 ''t3_a'' Up,
          TimerIntermediate ''link_vote_processor'' ''create_vote_object'',
          Mutate (m_insert (get_liked bob) ''t3_a''),
          TimerIntermediate ''link_vote_processor'' ''voter_likes'',
          LockRelease ''voting'' ''vote-2-t3_a'',
          AddItem ''author_query_1_q'' ''t3_a'', AddItem ''subreddit_query_q'' ''t3_a'',
          AddItem ''domain_query_3_q'' ''t3_a'',
          TimerStop ''link_vote_processor'', TimerFlush ''link_vote_processor'']"
    unfolding full
    by (simp add: new_vote_def update_user_liked_mutations_def is_upvote_def is_downvote_def
        link_fan_out_def add_to_author_query_q_def add_to_subreddit_query_q_def
        add_to_domain_query_q_def domain_queue_name_def str_of_int_def digit_char_def
        env0_def globals0_def fine_def state0_def link_a_def bob_def)
  have st: "''t3_a'' \<in> listings (snd (snd (link_process_message env0 fine (JsonObject (vote_msg 2 ''t3_a'' Up)) state0)))
                  (get_liked bob)"
    unfolding full
    by (simp add: new_vote_def update_user_liked_def update_user_liked_mutations_def
        CachedQueryMutator_def is_upvote_def link_a_def)
  have c: "list_ex is_commit (fst (snd (link_process_message env0 fine (JsonObject (vote_msg 2 ''t3_a'' Up)) state0)))"
    by (simp add: tr)
  have rest: "in_lock ''voting'' ''vote-2-t3_a'' 5 False
     (fst (snd (link_process_message env0 fine (JsonObject (vote_msg 2 ''t3_a'' Up)) state0)))
   \<and> LockRelease ''voting'' ''vote-2-t3_a''
       \<in> set (fst (snd (link_process_message env0 fine (JsonObject (vote_msg 2 ''t3_a'' Up)) state0)))
   \<and> filter is_lock (fst (snd (link_process_message env0 fine (JsonObject (vote_msg 2 ''t3_a'' Up)) state0)))
       = [LockAcquire ''voting'' ''vote-2-t3_a'' 5, LockRelease ''voting'' ''vote-2-t3_a'']"
    using h v c
      link_vote_under_lock [where vd = "vote_msg 2 ''t3_a'' Up" and uid = 2 and e = env0
        and user = bob and fullname = "''t3_a''" and lnk = link_a and c = fine and st = state0
        and dir = Up and date = 1000 and data = "[]" and p = NotJson]
    unfolding k by blast
  have lo: "link_process_message env0 locked_out (JsonObject (vote_msg 2 ''t3_a'' Up)) state0
       = (Raised TimeoutExpired, [TimerStart ''link_vote_processor''], state0)"
    using h v
      link_vote_under_lock [where vd = "vote_msg 2 ''t3_a'' Up" and uid = 2 and e = env0
        and user = bob and fullname = "''t3_a''" and lnk = link_a and c = locked_out and st = state0
        and dir = Up and date = 1000 and data = "[]" and p = NotJson]
    by blast
  show ?thesis
    using rest c tr st lo by blast
qed

text \<open>
  The comment consumer commits a vote of alice on a comment: its trace has the commit, no
  lock and no mutation of a listing.
\<close>

theorem comment_vote_without_lock:
  "list_ex is_commit (fst (snd (comment_process_message env0 fine (JsonObject (vote_msg 1 ''t1_c'' Up)) state0)))
   \<and> \<not> list_ex is_lock (fst (snd (comment_process_message env0 fine (JsonObject (vote_msg 1 ''t1_c'' Up)) state0)))
   \<and> \<not> list_ex is_mutate (fst (snd (comment_process_message env0 fine (JsonObject (vote_msg 1 ''t1_c'' Up)) state0)))"
  by (simp add: ex_comment_trace)

subsection \<open>Flagged messages\<close>



lemma list_ex_filter_same: "list_ex P (filter P xs) = list_ex P xs"
  by (induction xs) auto

lemma filter_empty_no_ex: "filter P xs = [] \<Longrightarrow> \<not> list_ex P xs"
  by (induction xs) (auto split: if_splits)

subsection \<open>Eligibility for the fan-out\<close>

text \<open>
  C4. A committed vote triggers the fan-out if and only if (it is the actor's first vote on
  the target or it changed the target's score) and the target is neither spam nor deleted.
  For a committed link vote the items put on the queues are exactly those of the author,
  subreddit and domain fan-out when the condition holds, and none otherwise; so a re-vote
  that is not the first vote and does not change the score puts nothing on a queue. For a
  committed comment vote the same condition gates the update of the author's comment
  listings, which the consumer makes itself: it is made only if the condition holds, and
  it is made when the condition holds, the author is found and \<open>add_queries\<close> does not
  raise.
\<close>

theorem fan_out_eligibility:
  "(vd_user_id vd = Some uid \<and> accounts e uid = Some user
      \<and> vd_thing_fullname vd = Some fullname \<and> links e fullname = Some lnk
      \<and> list_ex is_commit (fst (snd (link_process_message e c (JsonObject vd) st)))
    \<longrightarrow> filter is_add_item (fst (snd (link_process_message e c (JsonObject vd) st)))
          = (if (votes st (a_id user, l_fullname lnk) = None \<or> affects_score c)
                \<and> \<not> (l_spam lnk \<or> l_deleted lnk)
             then add_to_author_query_q e lnk @ add_to_subreddit_query_q e lnk
                  @ add_to_domain_query_q e lnk
             else [])
        \<and> (list_ex is_add_item (fst (snd (link_process_message e c (JsonObject vd) st)))
             \<longleftrightarrow> (votes st (a_id user, l_fullname lnk) = None \<or> affects_score c)
                 \<and> \<not> (l_spam lnk \<or> l_deleted lnk)))
   \<and> (vd_user_id vd = Some uid \<and> accounts e uid = Some user
        \<and> vd_thing_fullname vd = Some fullname \<and> comments e fullname = Some cm
        \<and> list_ex is_commit (fst (snd (comment_process_message e c (JsonObject vd) st)))
      \<longrightarrow> (list_ex is_add_queries (fst (snd (comment_process_message e c (JsonObject vd) st)))
            \<longrightarrow> (votes st (a_id user, c_fullname cm) = None \<or> affects_score c)
                \<and> \<not> (c_spam cm \<or> c_deleted cm))
          \<and> ((votes st (a_id user, c_fullname cm) = None \<or> affects_score c)
               \<and> \<not> (c_spam cm \<or> c_deleted cm)
               \<and> accounts e (c_author_id cm) = Some author
               \<and> \<not> add_queries_raises e (map (\<lambda>sort. get_comments author sort ''all'') SORTS)
              \<longrightarrow> AddQueries (map (\<lambda>sort. get_comments author sort ''all'') SORTS) [Comment cm]
                    \<in> set (fst (snd (comment_process_message e c (JsonObject vd) st)))))"
proof -
  have l: "filter is_add_item (fst (snd (link_process_message e c (JsonObject vd) st)))
          = (if (votes st (a_id user, l_fullname lnk) = None \<or> affects_score c)
                \<and> \<not> (l_spam lnk \<or> l_deleted lnk)
             then add_to_author_query_q e lnk @ add_to_subreddit_query_q e lnk
                  @ add_to_domain_query_q e lnk
             else [])"
    if "vd_user_id vd = Some uid" "accounts e uid = Some user"
       "vd_thing_fullname vd = Some fullname" "links e fullname = Some lnk"
       "list_ex is_commit (fst (snd (link_process_message e c (JsonObject vd) st)))"
  proof -
    from that(5) have "link_commits e c vd" by (simp add: link_committed_iff)
    then show ?thesis
      using that(1-4)
      by (elim link_commitsE)
         (simp add: link_process_message_commits, simp add: link_fan_out_def new_vote_def)
  qed
  have ne: "list_ex is_add_item
              (add_to_author_query_q e lnk @ add_to_subreddit_query_q e lnk @ add_to_domain_query_q e lnk)"
    by (simp add: add_to_author_query_q_def)
  have l2: "list_ex is_add_item (fst (snd (link_process_message e c (JsonObject vd) st)))
             \<longleftrightarrow> (votes st (a_id user, l_fullname lnk) = None \<or> affects_score c)
                 \<and> \<not> (l_spam lnk \<or> l_deleted lnk)"
    if "vd_user_id vd = Some uid" "accounts e uid = Some user"
       "vd_thing_fullname vd = Some fullname" "links e fullname = Some lnk"
       "list_ex is_commit (fst (snd (link_process_message e c (JsonObject vd) st)))"
  proof -
    have "list_ex is_add_item (fst (snd (link_process_message e c (JsonObject vd) st)))
          \<longleftrightarrow> list_ex is_add_item (filter is_add_item (fst (snd (link_process_message e c (JsonObject vd) st))))"
      by (simp add: list_ex_filter_same)
    then show ?thesis
      unfolding l [OF that] using ne by (simp split: if_splits)
  qed
  have cm: "(list_ex is_add_queries (fst (snd (comment_process_message e c (JsonObject vd) st)))
            \<longrightarrow> (votes st (a_id user, c_fullname cm) = None \<or> affects_score c)
                \<and> \<not> (c_spam cm \<or> c_deleted cm))
          \<and> ((votes st (a_id user, c_fullname cm) = None \<or> affects_score c)
               \<and> \<not> (c_spam cm \<or> c_deleted cm)
               \<and> accounts e (c_author_id cm) = Some author
               \<and> \<not> add_queries_raises e (map (\<lambda>sort. get_comments author sort ''all'') SORTS)
              \<longrightarrow> AddQueries (map (\<lambda>sort. get_comments author sort ''all'') SORTS) [Comment cm]
                    \<in> set (fst (snd (comment_process_message e c (JsonObject vd) st))))"
    if "vd_user_id vd = Some uid" "accounts e uid = Some user"
       "vd_thing_fullname vd = Some fullname" "comments e fullname = Some cm"
       "list_ex is_commit (fst (snd (comment_process_message e c (JsonObject vd) st)))"
  proof -
    from that(5) have "comment_commits e vd" by (simp add: comment_committed_iff)
    then show ?thesis
      using that(1-4)
      by (elim comment_commitsE)
         (auto simp: comment_process_message_commits comment_fan_out_def new_vote_def
            add_queries_def comment_score_update_def Let_def
            split: option.splits if_splits)
  qed
  show ?thesis
    using l l2 cm by blast
qed


theorem fan_out_eligibility_witness:
  "list_ex is_commit (fst (snd (link_process_message env0 no_effect (JsonObject (vote_msg 2 ''t3_a'' Up)) state2)))
   \<and> \<not> list_ex is_add_item (fst (snd (link_process_message env0 no_effect (JsonObject (vote_msg 2 ''t3_a'' Up)) state2)))
   \<and> list_ex is_add_item (fst (snd (link_process_message env0 fine (JsonObject (vote_msg 2 ''t3_a'' Up)) state0)))
   \<and> AddQueries (map (\<lambda>sort. get_comments bob sort ''all'') SORTS) [Comment comment_c]
       \<in> set (fst (snd (comment_process_message env0 fine (JsonObject (vote_msg 1 ''t1_c'' Up)) state0)))"
proof -
  have r: "vd_user_id (vote_msg 2 ''t3_a'' Up) = Some 2 \<and> accounts env0 2 = Some bob
      \<and> vd_thing_fullname (vote_msg 2 ''t3_a'' Up) = Some ''t3_a'' \<and> links env0 ''t3_a'' = Some link_a"
    by (simp add: vote_msg_def env0_def)
  have c1: "list_ex is_commit (fst (snd (link_process_message env0 no_effect (JsonObject (vote_msg 2 ''t3_a'' Up)) state2)))"
    by (simp add: link_committed_iff link_commits_def env0_def vote_msg_def no_effect_def link_a_def)
  have c2: "list_ex is_commit (fst (snd (link_process_message env0 fine (JsonObject (vote_msg 2 ''t3_a'' Up)) state0)))"
    by (simp add: ex_link_trace)
  have s2: "votes state2 (a_id bob, l_fullname link_a) \<noteq> None \<and> \<not> affects_score no_effect"
    by (simp add: state2_def bob_def link_a_def no_effect_def)
  have s0: "votes state0 (a_id bob, l_fullname link_a) = None \<and> \<not> (l_spam link_a \<or> l_deleted link_a)"
    by (simp add: state0_def link_a_def)
  have rc: "vd_user_id (vote_msg 1 ''t1_c'' Up) = Some 1 \<and> accounts env0 1 = Some alice
      \<and> vd_thing_fullname (vote_msg 1 ''t1_c'' Up) = Some ''t1_c'' \<and> comments env0 ''t1_c'' = Some comment_c"
    by (simp add: vote_msg_def env0_def)
  have c3: "list_ex is_commit (fst (snd (comment_process_message env0 fine (JsonObject (vote_msg 1 ''t1_c'' Up)) state0)))"
    by (simp add: ex_comment_trace)
  have s3: "votes state0 (a_id alice, c_fullname comment_c) = None
      \<and> \<not> (c_spam comment_c \<or> c_deleted comment_c)
      \<and> accounts env0 (c_author_id comment_c) = Some bob
      \<and> \<not> add_queries_raises env0 (map (\<lambda>sort. get_comments bob sort ''all'') SORTS)"
    by (simp add: state0_def comment_c_def env0_def)
  have A: "\<not> list_ex is_add_item (fst (snd (link_process_message env0 no_effect (JsonObject (vote_msg 2 ''t3_a'' Up)) state2)))"
    using r c1 s2
      fan_out_eligibility [where vd = "vote_msg 2 ''t3_a'' Up" and uid = 2 and e = env0 and user = bob
        and fullname = "''t3_a''" and lnk = link_a and c = no_effect and st = state2
        and cm = comment_c and author = bob, THEN conjunct1]
    by auto
  have B: "list_ex is_add_item (fst (snd (link_process_message env0 fine (JsonObject (vote_msg 2 ''t3_a'' Up)) state0)))"
    using r c2 s0
      fan_out_eligibility [where vd = "vote_msg 2 ''t3_a'' Up" and uid = 2 and e = env0 and user = bob
        and fullname = "''t3_a''" and lnk = link_a and c = fine and st = state0
        and cm = comment_c and author = bob, THEN conjunct1]
    by auto
  have C: "AddQueries (map (\<lambda>sort. get_comments bob sort ''all'') SORTS) [Comment comment_c]
       \<in> set (fst (snd (comment_process_message env0 fine (JsonObject (vote_msg 1 ''t1_c'' Up)) state0)))"
    using rc c3 s3
      fan_out_eligibility [where vd = "vote_msg 1 ''t1_c'' Up" and uid = 1 and e = env0 and user = alice
        and fullname = "''t1_c''" and lnk = link_a and c = fine and st = state0
        and cm = comment_c and author = bob, THEN conjunct2]
    by auto
  show ?thesis
    using c1 A B C by simp
qed

subsection \<open>The domain queues\<close>

lemma filter_domain_item_Mutate [simp]: "filter is_domain_item (map Mutate ms) = []"
  by (induction ms) auto

lemma filter_domain_item_fan_out:
  "filter is_domain_item (link_fan_out e v lnk) =
     (if (v_is_automatic_initial_vote v \<or> v_affects_score v) \<and> \<not> (l_spam lnk \<or> l_deleted lnk)
         \<and> domain_permutations e (l_url lnk) \<noteq> []
      then [AddItem (domain_queue_name e lnk) (l_fullname lnk)] else [])"
  by (simp add: link_fan_out_def add_to_author_query_q_def add_to_subreddit_query_q_def
      add_to_domain_query_q_def domain_queue_name_def Let_def)

lemma quiet_no_domain_item: "list_all quiet evs \<Longrightarrow> filter is_domain_item evs = []"
proof (induction evs)
  case Nil
  then show ?case by simp
next
  case (Cons ev evs)
  then show ?case by (cases ev) (auto simp: quiet_def)
qed

text \<open>
  C6. \<open>add_to_domain_query_q\<close> puts the link's fullname on a domain queue if and only if
  the link's URL has at least one domain permutation; the queue is
  \<open>domain_query_<hash(hostname) mod 10>_q\<close> when the domain queues are sharded and
  \<open>domain_query_q\<close> otherwise, and the shard is one of 0..9. The fan-out of a vote holds a
  domain item exactly when the vote is eligible and the URL has a permutation, and the trace
  of the link consumer on a message for a link without a permutation holds no domain item.
\<close>

theorem domain_fan_out:
  "add_to_domain_query_q e lnk =
     (if domain_permutations e (l_url lnk) \<noteq> []
      then [AddItem (if shard_domain_query_queues (g e)
                     then ''domain_query_'' @ str_of_int (py_hash e (hostname e (l_url lnk)) mod 10) @ ''_q''
                     else ''domain_query_q'')
                    (l_fullname lnk)]
      else [])
   \<and> 0 \<le> py_hash e (hostname e (l_url lnk)) mod 10
   \<and> py_hash e (hostname e (l_url lnk)) mod 10 < 10
   \<and> filter is_domain_item (link_fan_out e v lnk) =
       (if (v_is_automatic_initial_vote v \<or> v_affects_score v) \<and> \<not> (l_spam lnk \<or> l_deleted lnk)
           \<and> domain_permutations e (l_url lnk) \<noteq> []
        then add_to_domain_query_q e lnk else [])
   \<and> (vd_thing_fullname vd = Some fullname \<and> links e fullname = Some lnk
        \<and> domain_permutations e (l_url lnk) = []
      \<longrightarrow> \<not> list_ex is_domain_item (fst (snd (link_process_message e c (JsonObject vd) st))))"
proof -
  have a: "add_to_domain_query_q e lnk =
     (if domain_permutations e (l_url lnk) \<noteq> []
      then [AddItem (if shard_domain_query_queues (g e)
                     then ''domain_query_'' @ str_of_int (py_hash e (hostname e (l_url lnk)) mod 10) @ ''_q''
                     else ''domain_query_q'')
                    (l_fullname lnk)]
      else [])"
    by (simp add: add_to_domain_query_q_def domain_queue_name_def)
  have b: "filter is_domain_item (link_fan_out e v lnk) =
       (if (v_is_automatic_initial_vote v \<or> v_affects_score v) \<and> \<not> (l_spam lnk \<or> l_deleted lnk)
           \<and> domain_permutations e (l_url lnk) \<noteq> []
        then add_to_domain_query_q e lnk else [])"
    by (simp add: filter_domain_item_fan_out add_to_domain_query_q_def)
  have d: "\<not> list_ex is_domain_item (fst (snd (link_process_message e c (JsonObject vd) st)))"
    if "vd_thing_fullname vd = Some fullname" "links e fullname = Some lnk"
       "domain_permutations e (l_url lnk) = []"
  proof -
    have "filter is_domain_item (fst (snd (link_process_message e c (JsonObject vd) st))) = []"
    proof (cases "link_commits e c vd")
      case True
      then show ?thesis
        using that
        by (elim link_commitsE)
           (simp add: link_process_message_commits filter_domain_item_fan_out)
    next
      case False
      then show ?thesis
        using link_process_message_skips(2) [of e c vd st] quiet_no_domain_item by blast
    qed
    then show ?thesis
      by (rule filter_empty_no_ex)
  qed
  show ?thesis
    using a b d by simp
qed

theorem domain_fan_out_witness:
  "is_domain_item (AddItem ''domain_query_3_q'' ''t3_a'')
   \<and> add_to_domain_query_q env0 link_a = [AddItem ''domain_query_3_q'' ''t3_a'']
   \<and> add_to_domain_query_q env0 link_b = []
   \<and> \<not> list_ex is_domain_item (fst (snd (link_process_message env0 fine (JsonObject (vote_msg 2 ''t3_b'' Up)) state0)))"
proof -
  have h: "vd_thing_fullname (vote_msg 2 ''t3_b'' Up) = Some ''t3_b'' \<and> links env0 ''t3_b'' = Some link_b
      \<and> domain_permutations env0 (l_url link_b) = []"
    by (simp add: vote_msg_def env0_def link_b_def)
  have p: "domain_permutations env0 (l_url link_a) \<noteq> [] \<and> shard_domain_query_queues (g env0)
      \<and> str_of_int (py_hash env0 (hostname env0 (l_url link_a)) mod 10) = ''3''
      \<and> l_fullname link_a = ''t3_a''"
    by (simp add: env0_def link_a_def globals0_def str_of_int_def digit_char_def)
  show ?thesis
    using h p
      domain_fan_out [of env0 link_a undefined "vote_msg 2 ''t3_b'' Up" "''t3_b''" fine state0]
      domain_fan_out [of env0 link_b undefined "vote_msg 2 ''t3_b'' Up" "''t3_b''" fine state0]
    by simp
qed

subsection \<open>The comments-tree queue\<close>

text \<open>
  C9, as the code has it. For a committed, eligible comment vote whose author is found and
  whose listings are updated, the comment is put on the comments-tree queue exactly when
  its vote count is at most the threshold (\<open>num_votes <= update_threshold\<close>), or the
  period is not 0 and the vote count is a multiple of it. The function that decides it
  raises ZeroDivisionError exactly when the vote count is over the threshold and the period
  is 0, and returns otherwise; and so does the consumer on such a vote.
\<close>

theorem commentstree_update_rule:
  "(vd_user_id vd = Some uid \<and> accounts e uid = Some user
      \<and> vd_thing_fullname vd = Some fullname \<and> comments e fullname = Some cm
      \<and> list_ex is_commit (fst (snd (comment_process_message e c (JsonObject vd) st)))
      \<and> (votes st (a_id user, c_fullname cm) = None \<or> affects_score c)
      \<and> \<not> (c_spam cm \<or> c_deleted cm)
      \<and> accounts e (c_author_id cm) = Some author
      \<and> \<not> add_queries_raises e (map (\<lambda>sort. get_comments author sort ''all'') SORTS)
    \<longrightarrow> (AddToCommentstreeQ (c_fullname cm) \<in> set (fst (snd (comment_process_message e c (JsonObject vd) st)))
          \<longleftrightarrow> c_num_votes cm \<le> comment_vote_update_threshold (g e)
              \<or> (comment_vote_update_period (g e) \<noteq> 0
                  \<and> c_num_votes cm mod comment_vote_update_period (g e) = 0)))
   \<and> snd (comment_score_update e cm) =
       (if c_num_votes cm \<le> comment_vote_update_threshold (g e)
           \<or> (comment_vote_update_period (g e) \<noteq> 0
               \<and> c_num_votes cm mod comment_vote_update_period (g e) = 0)
        then [AddToCommentstreeQ (c_fullname cm)] else [])
   \<and> (fst (comment_score_update e cm) = Raised ZeroDivisionError
        \<longleftrightarrow> comment_vote_update_threshold (g e) < c_num_votes cm
            \<and> comment_vote_update_period (g e) = 0)
   \<and> (fst (comment_score_update e cm) \<noteq> Raised ZeroDivisionError
        \<longrightarrow> fst (comment_score_update e cm) = Returned)
   \<and> (vd_user_id vd = Some uid \<and> accounts e uid = Some user
        \<and> vd_thing_fullname vd = Some fullname \<and> comments e fullname = Some cm
        \<and> list_ex is_commit (fst (snd (comment_process_message e c (JsonObject vd) st)))
        \<and> (votes st (a_id user, c_fullname cm) = None \<or> affects_score c)
        \<and> \<not> (c_spam cm \<or> c_deleted cm)
        \<and> accounts e (c_author_id cm) = Some author
        \<and> \<not> add_queries_raises e (map (\<lambda>sort. get_comments author sort ''all'') SORTS)
      \<longrightarrow> (fst (comment_process_message e c (JsonObject vd) st) = Raised ZeroDivisionError
            \<longleftrightarrow> comment_vote_update_threshold (g e) < c_num_votes cm
                \<and> comment_vote_update_period (g e) = 0))"
proof -
  have z: "fst (comment_process_message e c (JsonObject vd) st) = Raised ZeroDivisionError
            \<longleftrightarrow> comment_vote_update_threshold (g e) < c_num_votes cm
                \<and> comment_vote_update_period (g e) = 0"
    if "vd_user_id vd = Some uid" "accounts e uid = Some user"
       "vd_thing_fullname vd = Some fullname" "comments e fullname = Some cm"
       "list_ex is_commit (fst (snd (comment_process_message e c (JsonObject vd) st)))"
       "votes st (a_id user, c_fullname cm) = None \<or> affects_score c"
       "\<not> (c_spam cm \<or> c_deleted cm)"
       "accounts e (c_author_id cm) = Some author"
       "\<not> add_queries_raises e (map (\<lambda>sort. get_comments author sort ''all'') SORTS)"
  proof -
    from that(5) have "comment_commits e vd" by (simp add: comment_committed_iff)
    then show ?thesis
      using that(1-4,6-9)
      by (elim comment_commitsE)
         (auto simp: comment_process_message_commits comment_fan_out_def new_vote_def
            add_queries_def comment_score_update_def Let_def
            split: option.splits if_splits)
  qed
  have a: "AddToCommentstreeQ (c_fullname cm) \<in> set (fst (snd (comment_process_message e c (JsonObject vd) st)))
          \<longleftrightarrow> c_num_votes cm \<le> comment_vote_update_threshold (g e)
              \<or> (comment_vote_update_period (g e) \<noteq> 0
                  \<and> c_num_votes cm mod comment_vote_update_period (g e) = 0)"
    if "vd_user_id vd = Some uid" "accounts e uid = Some user"
       "vd_thing_fullname vd = Some fullname" "comments e fullname = Some cm"
       "list_ex is_commit (fst (snd (comment_process_message e c (JsonObject vd) st)))"
       "votes st (a_id user, c_fullname cm) = None \<or> affects_score c"
       "\<not> (c_spam cm \<or> c_deleted cm)"
       "accounts e (c_author_id cm) = Some author"
       "\<not> add_queries_raises e (map (\<lambda>sort. get_comments author sort ''all'') SORTS)"
  proof -
    from that(5) have "comment_commits e vd" by (simp add: comment_committed_iff)
    then show ?thesis
      using that(1-4,6-9)
      by (elim comment_commitsE)
         (auto simp: comment_process_message_commits comment_fan_out_def new_vote_def
            add_queries_def comment_score_update_def Let_def
            split: option.splits if_splits)
  qed
  have b: "fst (comment_score_update e cm) = Raised ZeroDivisionError
        \<longleftrightarrow> comment_vote_update_threshold (g e) < c_num_votes cm
            \<and> comment_vote_update_period (g e) = 0"
    by (auto simp: comment_score_update_def Let_def)
  have d: "fst (comment_score_update e cm) \<noteq> Raised ZeroDivisionError
        \<longrightarrow> fst (comment_score_update e cm) = Returned"
    by (auto simp: comment_score_update_def Let_def)
  show ?thesis
    apply (intro conjI)
    subgoal by (intro impI, elim conjE, rule a; assumption)
    subgoal by (rule comment_score_update_events)
    subgoal by (rule b)
    subgoal by (rule d)
    subgoal by (intro impI, elim conjE, rule z; assumption)
    done
qed

theorem commentstree_update_rule_witness:
  "list_ex is_commit (fst (snd (comment_process_message env0 fine (JsonObject (vote_msg 1 ''t1_c'' Up)) state0)))
   \<and> c_num_votes comment_c \<le> comment_vote_update_threshold (g env0)
   \<and> AddToCommentstreeQ (c_fullname comment_c)
       \<in> set (fst (snd (comment_process_message env0 fine (JsonObject (vote_msg 1 ''t1_c'' Up)) state0)))"
proof -
  have rc: "vd_user_id (vote_msg 1 ''t1_c'' Up) = Some 1 \<and> accounts env0 1 = Some alice
      \<and> vd_thing_fullname (vote_msg 1 ''t1_c'' Up) = Some ''t1_c'' \<and> comments env0 ''t1_c'' = Some comment_c"
    by (simp add: vote_msg_def env0_def)
  have c3: "list_ex is_commit (fst (snd (comment_process_message env0 fine (JsonObject (vote_msg 1 ''t1_c'' Up)) state0)))"
    by (simp add: comment_committed_iff comment_commits_def env0_def vote_msg_def comment_c_def)
  have s3: "votes state0 (a_id alice, c_fullname comment_c) = None
      \<and> \<not> (c_spam comment_c \<or> c_deleted comment_c)
      \<and> accounts env0 (c_author_id comment_c) = Some bob
      \<and> \<not> add_queries_raises env0 (map (\<lambda>sort. get_comments bob sort ''all'') SORTS)"
    by (simp add: state0_def comment_c_def env0_def)
  have n: "c_num_votes comment_c \<le> comment_vote_update_threshold (g env0)"
    by (simp add: comment_c_def env0_def globals0_def)
  have "AddToCommentstreeQ (c_fullname comment_c)
       \<in> set (fst (snd (comment_process_message env0 fine (JsonObject (vote_msg 1 ''t1_c'' Up)) state0)))"
    using rc c3 s3 n
      commentstree_update_rule [where vd = "vote_msg 1 ''t1_c'' Up" and uid = 1 and e = env0
        and user = alice and fullname = "''t1_c''" and c = fine and st = state0
        and cm = comment_c and author = bob, THEN conjunct1]
    by auto
  then show ?thesis
    using c3 n by simp
qed

text \<open>
  A comment with 5 votes, the threshold 5 and the period 3: the count is not below the
  threshold and not a multiple of the period, and the comment is put on the queue.
\<close>

theorem commentstree_update_at_threshold:
  "comments env0 ''t1_c'' = Some comment_c
   \<and> AddToCommentstreeQ ''t1_c''
       \<in> set (fst (snd (comment_process_message env0 fine (JsonObject (vote_msg 1 ''t1_c'' Up)) state0)))
   \<and> \<not> c_num_votes comment_c < comment_vote_update_threshold (g env0)
   \<and> c_num_votes comment_c mod comment_vote_update_period (g env0) \<noteq> 0"
  by (simp add: ex_comment_trace) (simp add: env0_def comment_c_def globals0_def)

subsection \<open>Recording the intent\<close>

text \<open>
  C8, as the code has it. When the cache write succeeds, \<open>update_vote_lookups\<close> stores the
  serialised direction under \<open>queuedvote:<actor id36>_<target fullname>\<close> with a time to
  live of the grace period in whole seconds plus 1, and then touches the actor's
  last-modified marker. When the cache write raises, the function raises too, before the
  touch, and so does \<open>cast_vote\<close>, before anything is put on the vote queue.
\<close>

theorem update_vote_lookups_effects:
  "update_vote_lookups e True user thing dir =
     (Returned,
      [CacheSet (''queuedvote:'' @ a_id36 user @ ''_'' @ thing_fullname thing)
         (serialize_direction e dir) (vote_queue_grace_period_seconds (g e) + 1),
       LastModifiedTouch (a_fullname user) (last_modified_name e (thing_cls thing))])
   \<and> update_vote_lookups e False user thing dir = (Raised CacheError, [])
   \<and> cast_vote e False now user thing dir data = (Raised CacheError, [])"
  by (simp add: update_vote_lookups_def cast_vote_def prequeued_vote_key_def)

theorem update_vote_lookups_effects_witness:
  "update_vote_lookups env0 True alice (Link link_b) Down =
     (Returned,
      [CacheSet ''queuedvote:1_t3_b'' (- 1) 61, LastModifiedTouch ''t2_1'' ''LinkVotesByAccount''])"
  using update_vote_lookups_effects [of env0 alice "Link link_b" Down 1000 "[]"]
  by (simp add: env0_def globals0_def alice_def link_b_def)

text \<open>A failing cache write reaches the caller of \<open>cast_vote\<close>, and nothing is logged.\<close>

theorem cache_failure_propagates:
  "fst (update_vote_lookups env0 False alice (Link link_b) Down) = Raised CacheError
   \<and> fst (cast_vote env0 False 1000 alice (Link link_b) Down []) = Raised CacheError
   \<and> snd (cast_vote env0 False 1000 alice (Link link_b) Down []) = []"
  by (simp add: update_vote_lookups_def cast_vote_def)

subsection \<open>The vote store under redelivery\<close>

lemma last_commit_append:
  "last_commit u t (xs @ ys) =
     (case last_commit u t ys of Some d \<Rightarrow> Some d | None \<Rightarrow> last_commit u t xs)"
proof (induction xs)
  case Nil
  then show ?case by (simp split: option.splits)
next
  case (Cons ev xs)
  then show ?case by (cases ev) (auto split: option.splits)
qed

lemma last_commit_no_commit: "\<not> list_ex is_commit evs \<Longrightarrow> last_commit u t evs = None"
proof (induction evs)
  case Nil
  then show ?case by simp
next
  case (Cons ev evs)
  then show ?case by (cases ev) auto
qed

lemma no_commit_Mutate [simp]: "\<not> list_ex is_commit (map Mutate ms)"
  by (induction ms) auto

lemma no_commit_fan_out [simp]: "\<not> list_ex is_commit (link_fan_out e v lnk)"
  by (simp add: link_fan_out_def add_to_author_query_q_def add_to_subreddit_query_q_def
      add_to_domain_query_q_def Let_def)

lemma filter_commit_Mutate [simp]: "filter is_commit (map Mutate ms) = []"
  by (induction ms) auto

lemma filter_commit_fan_out [simp]: "filter is_commit (link_fan_out e v lnk) = []"
  by (simp add: link_fan_out_def add_to_author_query_q_def add_to_subreddit_query_q_def
      add_to_domain_query_q_def Let_def)

lemma votes_update_user_liked [simp]: "votes (snd (update_user_liked v st)) = votes st"
  by (simp add: update_user_liked_def votes_CachedQueryMutator)

lemma votes_commit:
  "votes (commit v st) = (votes st)((a_id (v_user v), v_thing v) \<mapsto>
      \<lparr>sv_direction = v_direction v, sv_date = v_date v\<rparr>)"
  by (simp add: commit_def)

lemma link_step_direction:
  "map_option sv_direction (votes (snd (snd (link_process_message e c (JsonObject vd) st))) (u, t))
     = (case last_commit u t (fst (snd (link_process_message e c (JsonObject vd) st))) of
          Some d \<Rightarrow> Some d
        | None \<Rightarrow> map_option sv_direction (votes st (u, t)))"
proof (cases "link_commits e c vd")
  case True
  then show ?thesis
    by (elim link_commitsE)
       (simp add: link_process_message_commits votes_commit last_commit_append
          last_commit_no_commit new_vote_def)
next
  case False
  then have "\<not> list_ex is_commit (fst (snd (link_process_message e c (JsonObject vd) st)))"
    by (simp add: link_committed_iff)
  then show ?thesis
    using False by (simp add: last_commit_no_commit link_process_message_skips(1))
qed

lemma decorated_link_step_direction:
  "map_option sv_direction (votes (snd (snd (decorated_link_process_message e c p st))) (u, t))
     = (case last_commit u t (fst (snd (decorated_link_process_message e c p st))) of
          Some d \<Rightarrow> Some d
        | None \<Rightarrow> map_option sv_direction (votes st (u, t)))"
proof (cases "\<exists>vd. p = JsonObject vd")
  case True
  then obtain vd where p: "p = JsonObject vd" by blast
  show ?thesis
    using link_step_direction [of e c vd st u t]
    by (simp add: p decorated_link_parts last_commit_append)
next
  case False
  then have n: "\<forall>vd. p \<noteq> JsonObject vd" by blast
  have "last_commit u t (fst (snd (link_process_message e c p st))) = None"
    using link_process_message_no_dictionary(2) [OF n] quiet_no_commit last_commit_no_commit
    by blast
  then show ?thesis
    by (simp add: decorated_link_parts last_commit_append link_process_message_no_dictionary(1) [OF n])
qed

lemma consume_direction:
  "map_option sv_direction (votes (snd (consume_link_vote_queue e ds st)) (u, t))
     = (case last_commit u t (fst (consume_link_vote_queue e ds st)) of
          Some d \<Rightarrow> Some d
        | None \<Rightarrow> map_option sv_direction (votes st (u, t)))"
proof (induction ds arbitrary: st)
  case Nil
  then show ?case by simp
next
  case (Cons d ds)
  obtain c vd where d: "d = (c, vd)" by (cases d)
  obtain out evs st' where p: "decorated_link_process_message e c vd st = (out, evs, st')"
    by (cases "decorated_link_process_message e c vd st")
  obtain evs' st'' where r: "consume_link_vote_queue e ds st' = (evs', st'')"
    by (cases "consume_link_vote_queue e ds st'")
  have step: "map_option sv_direction (votes st' (u, t))
     = (case last_commit u t evs of Some d \<Rightarrow> Some d
        | None \<Rightarrow> map_option sv_direction (votes st (u, t)))"
    using decorated_link_step_direction [of e c vd st u t] p by simp
  have rest: "map_option sv_direction (votes st'' (u, t))
     = (case last_commit u t evs' of Some d \<Rightarrow> Some d
        | None \<Rightarrow> map_option sv_direction (votes st' (u, t)))"
    using Cons.IH [of st'] r by simp
  show ?case
    using step rest by (simp add: d p r last_commit_append split: option.splits)
qed

lemma consume_Cons_state:
  "snd (consume_link_vote_queue e ((c, p) # rest) st)
     = snd (consume_link_vote_queue e rest (snd (snd (link_process_message e c p st))))"
  by (simp add: decorated_link_process_message_def split: prod.splits)

lemma consume_append:
  "snd (consume_link_vote_queue e (xs @ ys) st)
     = snd (consume_link_vote_queue e ys (snd (consume_link_vote_queue e xs st)))"
proof (induction xs arbitrary: st)
  case Nil
  then show ?case by simp
next
  case (Cons d xs)
  obtain c vd where d: "d = (c, vd)" by (cases d)
  show ?case
    unfolding d append_Cons consume_Cons_state by (rule Cons.IH)
qed

lemma liked_after_upvote:
  "v_direction v = Up \<Longrightarrow> v_thing v \<in> listings (snd (update_user_liked v st)) (get_liked (v_user v))"
  "v_direction v = Down \<Longrightarrow> v_thing v \<in> listings (snd (update_user_liked v st)) (get_disliked (v_user v))"
  by (simp_all add: update_user_liked_def listings_CachedQueryMutator update_user_liked_mutations_eq)

lemma commit_again:
  assumes "votes st (a_id (v_user v), v_thing v) = Some \<lparr>sv_direction = v_direction v, sv_date = v_date v\<rparr>"
  shows "commit v st = st"
proof -
  have "(votes st)((a_id (v_user v), v_thing v) \<mapsto> \<lparr>sv_direction = v_direction v, sv_date = v_date v\<rparr>)
        = votes st"
    using assms by (simp add: fun_upd_idem)
  then show ?thesis by (simp add: commit_def)
qed

lemma update_user_liked_again:
  assumes "v_previous_vote v = Some (v_direction v)"
    and "v_direction v = Up \<longrightarrow> v_thing v \<in> listings st (get_liked (v_user v))"
    and "v_direction v = Down \<longrightarrow> v_thing v \<in> listings st (get_disliked (v_user v))"
  shows "snd (update_user_liked v st) = st"
proof -
  have "foldl apply_mutation (listings st) (update_user_liked_mutations v) = listings st"
    using assms
    by (cases "v_direction v") (auto simp: update_user_liked_mutations_eq fun_upd_idem insert_absorb)
  then show ?thesis
    by (simp add: update_user_liked_def CachedQueryMutator_def)
qed

lemma link_process_vote_data_again:
  "snd (snd (link_process_message e c (JsonObject vd) (snd (snd (link_process_message e c (JsonObject vd) st)))))
     = snd (snd (link_process_message e c (JsonObject vd) st))"
proof (cases "link_commits e c vd")
  case True
  then show ?thesis
  proof (elim link_commitsE)
    fix uid user fullname lnk dir date data
    assume h: "validate_vote_data e (JsonObject vd) \<noteq> Some False" "vd_user_id vd = Some uid"
      "accounts e uid = Some user" "vd_thing_fullname vd = Some fullname"
      "links e fullname = Some lnk" "lock_acquired c" "vd_direction vd = Some dir"
      "vd_date vd = Some date" "utcfromtimestamp_ok e date" "vd_data vd = Some data"
      "l_is_votable lnk"
    define v1 where "v1 = new_vote st (affects_score c) user (l_fullname lnk) dir date"
    define st1 where "st1 = snd (update_user_liked v1 (commit v1 st))"
    define v2 where "v2 = new_vote st1 (affects_score c) user (l_fullname lnk) dir date"
    have v1: "v_user v1 = user" "v_thing v1 = l_fullname lnk" "v_direction v1 = dir" "v_date v1 = date"
      by (simp_all add: v1_def new_vote_def)
    have s1: "snd (snd (link_process_message e c (JsonObject vd) st)) = st1"
      using h by (simp add: link_process_message_commits st1_def v1_def)
    have s2: "snd (snd (link_process_message e c (JsonObject vd) st1)) = snd (update_user_liked v2 (commit v2 st1))"
      using h by (simp add: link_process_message_commits v2_def)
    have stored: "votes st1 (a_id user, l_fullname lnk) = Some \<lparr>sv_direction = dir, sv_date = date\<rparr>"
      by (simp add: st1_def votes_commit v1)
    have v2: "v_user v2 = user" "v_thing v2 = l_fullname lnk" "v_direction v2 = dir" "v_date v2 = date"
      "v_previous_vote v2 = Some dir"
      by (simp_all add: v2_def new_vote_def stored)
    have c2: "commit v2 st1 = st1"
      by (rule commit_again) (simp add: v2 stored)
    have l: "dir = Up \<longrightarrow> l_fullname lnk \<in> listings st1 (get_liked user)"
      "dir = Down \<longrightarrow> l_fullname lnk \<in> listings st1 (get_disliked user)"
      using liked_after_upvote [of v1 "commit v1 st"] by (simp_all add: st1_def v1)
    have "snd (update_user_liked v2 st1) = st1"
      by (rule update_user_liked_again) (simp_all add: v2 l)
    then show ?thesis
      by (simp add: s1 s2 c2)
  qed
next
  case False
  then show ?thesis by (simp add: link_process_message_skips(1))
qed

lemma link_process_message_again:
  "snd (snd (link_process_message e c p (snd (snd (link_process_message e c p st)))))
     = snd (snd (link_process_message e c p st))"
proof (cases "\<exists>vd. p = JsonObject vd")
  case True
  then show ?thesis using link_process_vote_data_again by blast
next
  case False
  then have "\<forall>vd. p \<noteq> JsonObject vd" by blast
  then show ?thesis by (simp add: link_process_message_no_dictionary(1))
qed

lemma consume_twice:
  "snd (consume_link_vote_queue e (xs @ d # d # ys) st)
     = snd (consume_link_vote_queue e (xs @ d # ys) st)"
proof -
  obtain c vd where d: "d = (c, vd)" by (cases d)
  have one: "snd (consume_link_vote_queue e (d # d # ys) s) = snd (consume_link_vote_queue e (d # ys) s)" for s
    unfolding d consume_Cons_state link_process_message_again ..
  show ?thesis
    by (simp only: consume_append [of e xs] one)
qed


lemma filter_commit_link:
  assumes "vd_user_id vd = Some uid" "accounts e uid = Some user"
    "vd_thing_fullname vd = Some fullname" "links e fullname = Some lnk"
    "vd_direction vd = Some dir"
    "list_ex is_commit (fst (snd (link_process_message e c (JsonObject vd) st)))"
  shows "filter is_commit (fst (snd (link_process_message e c (JsonObject vd) st)))
           = [VoteCommit (a_id user) (l_fullname lnk) dir]"
proof -
  from assms(6) have "link_commits e c vd" by (simp add: link_committed_iff)
  then show ?thesis
    using assms(1-5) by (elim link_commitsE) (simp add: link_process_message_commits)
qed

text \<open>
  C1. After the link consumer has processed any list of deliveries, the direction stored for
  an actor and a target is the direction of the last commit of a vote of that actor on that
  target in the trace, and the stored vote of before when the trace has none. Processing a
  delivery a second time right after the first, under the same conditions, leaves the state
  as it was after the first. A delivery that commits logs one commit, with the direction of
  its message.
\<close>

theorem final_direction_is_last_commit:
  "map_option sv_direction (votes (snd (consume_link_vote_queue e ds st)) (u, t))
     = (case last_commit u t (fst (consume_link_vote_queue e ds st)) of
          Some d' \<Rightarrow> Some d'
        | None \<Rightarrow> map_option sv_direction (votes st (u, t)))
   \<and> snd (consume_link_vote_queue e (xs @ d # d # ys) st)
       = snd (consume_link_vote_queue e (xs @ d # ys) st)
   \<and> (vd_user_id vd = Some uid \<and> accounts e uid = Some user
        \<and> vd_thing_fullname vd = Some fullname \<and> links e fullname = Some lnk
        \<and> vd_direction vd = Some dir
        \<and> list_ex is_commit (fst (snd (link_process_message e c (JsonObject vd) st)))
      \<longrightarrow> filter is_commit (fst (snd (link_process_message e c (JsonObject vd) st)))
            = [VoteCommit (a_id user) (l_fullname lnk) dir])"
  apply (intro conjI)
  subgoal by (rule consume_direction)
  subgoal by (rule consume_twice)
  subgoal by (intro impI, elim conjE, rule filter_commit_link; assumption)
  done

lemma deliveries0_last_commit:
  "last_commit 2 ''t3_a'' (fst (consume_link_vote_queue env0 deliveries0 state0)) = Some Down"
  by (simp add: deliveries0_def decorated_link_process_message_def amqp_processor_def
      link_process_message_def link_process_vote_data_def link_vote_locked_def Vote_def new_vote_def
      commit_def update_user_liked_def update_user_liked_mutations_def CachedQueryMutator_def
      is_upvote_def is_downvote_def link_lock_key_def link_fan_out_def
      add_to_author_query_q_def add_to_subreddit_query_q_def add_to_domain_query_q_def
      domain_queue_name_def str_of_int_def digit_char_def locked_out_def
      env0_def globals0_def fine_def vote_msg_def state0_def link_a_def bob_def alice_def)

theorem final_direction_is_last_commit_witness:
  "map_option sv_direction (votes (snd (consume_link_vote_queue env0 deliveries0 state0)) (2, ''t3_a''))
     = Some Down
   \<and> last_commit 2 ''t3_a'' (fst (consume_link_vote_queue env0 deliveries0 state0)) = Some Down
   \<and> list_ex is_commit (fst (snd (link_process_message env0 fine (JsonObject (vote_msg 2 ''t3_a'' Up)) state0)))
   \<and> filter is_commit (fst (snd (link_process_message env0 fine (JsonObject (vote_msg 2 ''t3_a'' Up)) state0)))
       = [VoteCommit 2 ''t3_a'' Up]"
proof -
  have a: "map_option sv_direction (votes (snd (consume_link_vote_queue env0 deliveries0 state0)) (2, ''t3_a''))
     = Some Down"
    using final_direction_is_last_commit [where e = env0 and ds = deliveries0 and st = state0
        and u = 2 and t = "''t3_a''", THEN conjunct1]
    by (simp add: deliveries0_last_commit)
  have r: "vd_user_id (vote_msg 2 ''t3_a'' Up) = Some 2 \<and> accounts env0 2 = Some bob
      \<and> vd_thing_fullname (vote_msg 2 ''t3_a'' Up) = Some ''t3_a'' \<and> links env0 ''t3_a'' = Some link_a
      \<and> vd_direction (vote_msg 2 ''t3_a'' Up) = Some Up"
    by (simp add: vote_msg_def env0_def)
  have c: "list_ex is_commit (fst (snd (link_process_message env0 fine (JsonObject (vote_msg 2 ''t3_a'' Up)) state0)))"
    by (simp add: ex_link_trace)
  have k: "a_id bob = 2 \<and> l_fullname link_a = ''t3_a''"
    by (simp add: bob_def link_a_def)
  have b: "filter is_commit (fst (snd (link_process_message env0 fine (JsonObject (vote_msg 2 ''t3_a'' Up)) state0)))
       = [VoteCommit 2 ''t3_a'' Up]"
    using r c k
      final_direction_is_last_commit [where e = env0 and st = state0 and vd = "vote_msg 2 ''t3_a'' Up"
        and uid = 2 and user = bob and fullname = "''t3_a''" and lnk = link_a and dir = Up
        and c = fine, THEN conjunct2, THEN conjunct2]
    by simp
  show ?thesis
    using a b c by (simp add: deliveries0_last_commit)
qed

subsection \<open>Iteration and grouping\<close>

lemma iteration_distinct [simp]: "distinct (iteration order ks)"
  by (auto simp: iteration_def Let_def)

lemma iteration_set [simp]: "set (iteration order ks) = set ks"
  by (auto simp: iteration_def Let_def)

lemma values_of_group_append:
  "values_of (group_append k v gs) k' = values_of gs k' @ (if k' = k then [v] else [])"
  by (induction gs) (auto simp: values_of_def)

lemma values_of_foldl:
  "values_of (foldl (\<lambda>groups (k, v). group_append k v groups) gs ps) k
     = values_of gs k @ map snd (filter (\<lambda>p. fst p = k) ps)"
proof (induction ps arbitrary: gs)
  case Nil
  then show ?case by simp
next
  case (Cons p ps)
  obtain k' v where p: "p = (k', v)" by (cases p)
  show ?case
    by (simp add: p Cons.IH values_of_group_append)
qed

lemma values_of_group_pairs: "values_of (group_pairs ps) k = map snd (filter (\<lambda>p. fst p = k) ps)"
  by (simp add: group_pairs_def values_of_foldl) (simp add: values_of_def)

lemma keys_group_append: "fst ` set (group_append k v gs) = insert k (fst ` set gs)"
proof (induction gs)
  case Nil
  then show ?case by simp
next
  case (Cons g gs)
  obtain k' vs where g: "g = (k', vs)" by (cases g)
  show ?case
    using Cons.IH by (cases "k' = k") (auto simp: g)
qed

lemma keys_foldl:
  "fst ` set (foldl (\<lambda>groups (k, v). group_append k v groups) gs ps)
     = fst ` set gs \<union> fst ` set ps"
proof (induction ps arbitrary: gs)
  case Nil
  then show ?case by simp
next
  case (Cons p ps)
  obtain k v where p: "p = (k, v)" by (cases p)
  show ?case
    by (simp add: p Cons.IH keys_group_append)
qed

lemma keys_group_pairs: "fst ` set (group_pairs ps) = fst ` set ps"
  by (simp add: group_pairs_def keys_foldl)

lemma iteritems_keys: "map fst (iteritems order d) = iteration order (map fst d)"
  by (simp add: iteritems_def comp_def)

lemma iteritems_keys_distinct: "distinct (map fst (iteritems order d))"
  by (simp add: iteritems_keys)

lemma iteritems_keys_set: "fst ` set (iteritems order (group_pairs ps)) = fst ` set ps"
proof -
  have "set (map fst (iteritems order (group_pairs ps))) = set (map fst (group_pairs ps))"
    by (simp only: iteritems_keys iteration_set)
  then show ?thesis by (simp add: keys_group_pairs)
qed

lemma iteritems_group_pairs:
  "iteritems order (group_pairs ps)
     = map (\<lambda>k. (k, map snd (filter (\<lambda>p. fst p = k) ps))) (map fst (iteritems order (group_pairs ps)))"
  by (simp add: iteritems_keys) (simp add: iteritems_def values_of_group_pairs)

lemma keyed_filter:
  "map snd (filter (\<lambda>p. fst p = k) (map (\<lambda>l. (f l, l)) ls)) = filter (\<lambda>l. f l = k) ls"
  by (induction ls) auto

lemma domain_filter_one:
  "distinct ds \<Longrightarrow> map snd (filter (\<lambda>p. fst p = d) (map (\<lambda>d'. (d', l)) ds)) = (if d \<in> set ds then [l] else [])"
  by (induction ds) auto

lemma domain_filter:
  assumes "\<forall>u. distinct (domain_permutations e u)"
  shows "map snd (filter (\<lambda>p. fst p = d)
            (concat (map (\<lambda>l. map (\<lambda>d'. (d', l)) (domain_permutations e (l_url l))) ls)))
         = filter (\<lambda>l. d \<in> set (domain_permutations e (l_url l))) ls"
  using assms by (induction ls) (simp_all add: domain_filter_one)

lemma author_groups_eq:
  "author_groups e ls = map (\<lambda>k. (k, filter (\<lambda>l. l_author_id l = k) ls)) (map fst (author_groups e ls))"
  unfolding author_groups_def
  using iteritems_group_pairs [of "int_keys_iter e" "map (\<lambda>l. (l_author_id l, l)) ls"]
  by (simp only: keyed_filter)

lemma subreddit_groups_eq:
  "subreddit_groups e ls = map (\<lambda>k. (k, filter (\<lambda>l. l_sr_id l = k) ls)) (map fst (subreddit_groups e ls))"
  unfolding subreddit_groups_def
  using iteritems_group_pairs [of "int_keys_iter e" "map (\<lambda>l. (l_sr_id l, l)) ls"]
  by (simp only: keyed_filter)

lemma domain_groups_eq:
  assumes "\<forall>u. distinct (domain_permutations e u)"
  shows "domain_groups e ls
     = map (\<lambda>d. (d, filter (\<lambda>l. d \<in> set (domain_permutations e (l_url l))) ls))
         (map fst (domain_groups e ls))"
  unfolding domain_groups_def
  using iteritems_group_pairs [of "str_keys_iter e"
      "concat (map (\<lambda>l. map (\<lambda>d. (d, l)) (domain_permutations e (l_url l))) ls)"]
  by (simp only: domain_filter [OF assms])

lemma author_groups_keys:
  "distinct (map fst (author_groups e ls))" "set (map fst (author_groups e ls)) = l_author_id ` set ls"
  by (simp_all add: author_groups_def iteritems_keys_distinct iteritems_keys_set image_image)

lemma subreddit_groups_keys:
  "distinct (map fst (subreddit_groups e ls))" "set (map fst (subreddit_groups e ls)) = l_sr_id ` set ls"
  by (simp_all add: subreddit_groups_def iteritems_keys_distinct iteritems_keys_set image_image)

lemma domain_groups_keys:
  "distinct (map fst (domain_groups e ls))"
  "set (map fst (domain_groups e ls)) = (\<Union>l \<in> set ls. set (domain_permutations e (l_url l)))"
  by (simp_all add: domain_groups_def iteritems_keys_distinct iteritems_keys_set)
     (force simp: image_iff)

subsection \<open>Failures in a batch\<close>

lemma update_groups_all_ok:
  "list_all (group_ok e qf) groups \<Longrightarrow> update_groups e qf groups = (Returned, group_events qf groups)"
proof (induction groups)
  case Nil
  then show ?case by (simp add: group_events_def)
next
  case (Cons kl groups)
  obtain k ls where kl: "kl = (k, ls)" by (cases kl)
  from Cons.prems obtain qs where qs: "qf k = Some qs" "\<not> add_queries_raises e qs"
    by (auto simp: kl group_ok_def split: option.splits)
  from Cons have rest: "update_groups e qf groups = (Returned, group_events qf groups)"
    by simp
  show ?case
    by (simp add: kl qs rest add_queries_def group_events_def)
qed

lemma update_groups_stops:
  assumes "list_all (group_ok e qf) pre" and "qf k = Some qs" and "add_queries_raises e qs"
  shows "update_groups e qf (pre @ (k, fl) # post) = (Raised QueryError, group_events qf pre)"
  using assms(1)
proof (induction pre)
  case Nil
  then show ?case by (simp add: assms(2,3) add_queries_def group_events_def)
next
  case (Cons kl pre)
  obtain k' ls where kl: "kl = (k', ls)" by (cases kl)
  from Cons.prems obtain qs' where qs: "qf k' = Some qs'" "\<not> add_queries_raises e qs'"
    by (auto simp: kl group_ok_def split: option.splits)
  from Cons have rest: "update_groups e qf (pre @ (k, fl) # post) = (Raised QueryError, group_events qf pre)"
    by simp
  show ?case
    by (simp add: kl qs rest add_queries_def group_events_def)
qed

lemma update_groups_events:
  "snd (update_groups e qf groups) = group_events qf (takeWhile (group_ok e qf) groups)"
proof (induction groups)
  case Nil
  then show ?case by (simp add: group_events_def)
next
  case (Cons kl groups)
  obtain k ls where kl: "kl = (k, ls)" by (cases kl)
  show ?case
  proof (cases "group_ok e qf kl")
    case True
    then obtain qs where qs: "qf k = Some qs" "\<not> add_queries_raises e qs"
      by (auto simp: kl group_ok_def split: option.splits)
    obtain out evs where r: "update_groups e qf groups = (out, evs)"
      by (cases "update_groups e qf groups")
    show ?thesis
      using Cons.IH True
      by (simp add: kl qs r add_queries_def group_events_def)
  next
    case False
    then show ?thesis
      by (auto simp: kl group_ok_def add_queries_def group_events_def split: option.splits)
  qed
qed

text \<open>
  C7, as the code has it. In each of the three consumers the groups are updated in a loop
  that catches nothing, in the order in which the dictionary of the groups is iterated:
  when \<open>add_queries\<close> raises on a group, \<open>process_message\<close> raises, the groups that came
  before it in the loop have been updated and the groups after it are not processed. When
  no group fails, every group is updated, in each of the three.
\<close>

theorem group_failure_ends_batch:
  "(by_fullname (links e) (iteration (set_iter e) msgs) = Inr ls
      \<and> byID (accounts e) (map fst (author_groups e ls)) = Inr authors_by_id
      \<and> author_groups e ls = pre @ (k, fl) # post
      \<and> list_all (group_ok e (author_queries authors_by_id)) pre
      \<and> author_queries authors_by_id k = Some qs \<and> add_queries_raises e qs
    \<longrightarrow> author_process_message e msgs
          = (Raised QueryError, group_events (author_queries authors_by_id) pre))
   \<and> (by_fullname (links e) (iteration (set_iter e) msgs) = Inr ls
        \<and> byID (subreddits e) (map fst (subreddit_groups e ls)) = Inr srs_by_id
        \<and> subreddit_groups e ls = pre @ (k, fl) # post
        \<and> list_all (group_ok e (subreddit_queries srs_by_id)) pre
        \<and> subreddit_queries srs_by_id k = Some qs \<and> add_queries_raises e qs
      \<longrightarrow> subreddit_process_message e msgs
            = (Raised QueryError, group_events (subreddit_queries srs_by_id) pre))
   \<and> (by_fullname (links e) (iteration (set_iter e) msgs) = Inr ls
        \<and> domain_groups e ls = dpre @ (d, fl) # dpost
        \<and> list_all (group_ok e domain_queries) dpre
        \<and> add_queries_raises e (map (\<lambda>sort. get_domain_links d sort ''all'') SORTS)
      \<longrightarrow> domain_process_message e msgs = (Raised QueryError, group_events domain_queries dpre))
   \<and> (by_fullname (links e) (iteration (set_iter e) msgs) = Inr ls
        \<and> byID (accounts e) (map fst (author_groups e ls)) = Inr authors_by_id
        \<and> list_all (group_ok e (author_queries authors_by_id)) (author_groups e ls)
      \<longrightarrow> author_process_message e msgs
            = (Returned, group_events (author_queries authors_by_id) (author_groups e ls)))
   \<and> (by_fullname (links e) (iteration (set_iter e) msgs) = Inr ls
        \<and> byID (subreddits e) (map fst (subreddit_groups e ls)) = Inr srs_by_id
        \<and> list_all (group_ok e (subreddit_queries srs_by_id)) (subreddit_groups e ls)
      \<longrightarrow> subreddit_process_message e msgs
            = (Returned, group_events (subreddit_queries srs_by_id) (subreddit_groups e ls)))
   \<and> (by_fullname (links e) (iteration (set_iter e) msgs) = Inr ls
        \<and> list_all (group_ok e domain_queries) (domain_groups e ls)
      \<longrightarrow> domain_process_message e msgs
            = (Returned, group_events domain_queries (domain_groups e ls)))"
  apply (intro conjI impI)
  subgoal by (elim conjE) (simp add: author_process_message_def update_groups_stops)
  subgoal by (elim conjE) (simp add: subreddit_process_message_def update_groups_stops)
  subgoal by (elim conjE) (simp add: domain_process_message_def update_groups_stops domain_queries_def)
  subgoal by (elim conjE) (simp add: author_process_message_def update_groups_all_ok)
  subgoal by (elim conjE) (simp add: subreddit_process_message_def update_groups_all_ok)
  subgoal by (elim conjE) (simp add: domain_process_message_def update_groups_all_ok)
  done

lemma ex_three_links:
  "by_fullname (links env2) (iteration (set_iter env2) [''t3_a'', ''t3_b'', ''t3_c''])
     = Inr [link_a, link_b, link_c]"
  "by_fullname (links env0) (iteration (set_iter env0) [''t3_a'', ''t3_b'', ''t3_c''])
     = Inr [link_a, link_b, link_c]"
  by (simp_all add: by_fullname_def iteration_def env2_def env0_def)

lemma ex_three_groups:
  "author_groups env2 [link_a, link_b, link_c] = [(1, [link_a])] @ (2, [link_b]) # [(3, [link_c])]"
  "author_groups env0 [link_a, link_b, link_c] = [(1, [link_a]), (2, [link_b]), (3, [link_c])]"
  by (simp_all add: author_groups_def iteritems_def iteration_def values_of_def group_pairs_def
      env2_def env0_def link_a_def link_b_def link_c_def)

theorem group_failure_ends_batch_witness:
  "author_process_message env2 [''t3_a'', ''t3_b'', ''t3_c'']
     = (Raised QueryError,
        [AddQueries (map (\<lambda>sort. get_submitted alice sort ''all'') SORTS) [Link link_a]])
   \<and> author_process_message env0 [''t3_a'', ''t3_b'', ''t3_c'']
     = (Returned,
        [AddQueries (map (\<lambda>sort. get_submitted alice sort ''all'') SORTS) [Link link_a],
         AddQueries (map (\<lambda>sort. get_submitted bob sort ''all'') SORTS) [Link link_b],
         AddQueries (map (\<lambda>sort. get_submitted carol sort ''all'') SORTS) [Link link_c]])"
proof -
  let ?by_id2 = "\<lambda>i. if i \<in> set [1, 2, 3] then accounts env2 i else None"
  let ?by_id0 = "\<lambda>i. if i \<in> set [1, 2, 3] then accounts env0 i else None"
  have a2: "byID (accounts env2) (map fst ([(1, [link_a])] @ (2, [link_b]) # [(3, [link_c])])) = Inr ?by_id2"
  proof -
    have "those (map (accounts env2) [1, 2, 3]) = Some [alice, bob, carol]"
      by (simp add: env2_def env0_def)
    then show ?thesis by (simp add: byID_def)
  qed
  have a0: "byID (accounts env0) (map fst [(1, [link_a]), (2, [link_b]), (3, [link_c])]) = Inr ?by_id0"
  proof -
    have "those (map (accounts env0) [1, 2, 3]) = Some [alice, bob, carol]"
      by (simp add: env0_def)
    then show ?thesis by (simp add: byID_def)
  qed
  have q2: "list_all (group_ok env2 (author_queries ?by_id2)) [(1, [link_a])]
    \<and> author_queries ?by_id2 2 = Some (map (\<lambda>sort. get_submitted bob sort ''all'') SORTS)
    \<and> add_queries_raises env2 (map (\<lambda>sort. get_submitted bob sort ''all'') SORTS)"
    by (simp add: group_ok_def author_queries_def env2_def env0_def SORTS_def alice_def bob_def)
  have q0: "list_all (group_ok env0 (author_queries ?by_id0)) [(1, [link_a]), (2, [link_b]), (3, [link_c])]"
    by (simp add: group_ok_def author_queries_def env0_def)
  have f: "author_process_message env2 [''t3_a'', ''t3_b'', ''t3_c'']
      = (Raised QueryError, group_events (author_queries ?by_id2) [(1, [link_a])])"
    using ex_three_links(1) ex_three_groups(1) a2 q2
      group_failure_ends_batch [where e = env2 and msgs = "[''t3_a'', ''t3_b'', ''t3_c'']"
        and ls = "[link_a, link_b, link_c]" and pre = "[(1, [link_a])]" and k = 2
        and fl = "[link_b]" and post = "[(3, [link_c])]" and authors_by_id = ?by_id2
        and qs = "map (\<lambda>sort. get_submitted bob sort ''all'') SORTS", THEN conjunct1]
    by simp
  have g: "author_process_message env0 [''t3_a'', ''t3_b'', ''t3_c'']
      = (Returned, group_events (author_queries ?by_id0) [(1, [link_a]), (2, [link_b]), (3, [link_c])])"
    using ex_three_links(2) ex_three_groups(2) a0 q0
      group_failure_ends_batch [where e = env0 and msgs = "[''t3_a'', ''t3_b'', ''t3_c'']"
        and ls = "[link_a, link_b, link_c]" and authors_by_id = ?by_id0,
        THEN conjunct2, THEN conjunct2, THEN conjunct2, THEN conjunct1]
    by simp
  show ?thesis
    unfolding f g
    by (simp add: group_events_def author_queries_def env2_def env0_def)
qed

text \<open>
  A batch of two links, of alice and of bob, where the listings of alice cannot be updated:
  the listings of bob, which can, are not updated either, in whichever order the two
  messages came.
\<close>

theorem other_group_not_updated:
  "fst (author_process_message env1 [''t3_a'', ''t3_b'']) = Raised QueryError
   \<and> links env1 ''t3_b'' = Some link_b \<and> l_author_id link_b = 2 \<and> accounts env1 2 = Some bob
   \<and> \<not> add_queries_raises env1 (map (\<lambda>sort. get_submitted bob sort ''all'') SORTS)
   \<and> \<not> list_ex is_add_queries (snd (author_process_message env1 [''t3_a'', ''t3_b'']))
   \<and> fst (author_process_message env1 [''t3_b'', ''t3_a'']) = Raised QueryError
   \<and> \<not> list_ex is_add_queries (snd (author_process_message env1 [''t3_b'', ''t3_a'']))"
  by (simp add: author_process_message_def by_fullname_def byID_def author_groups_def
      iteritems_def iteration_def values_of_def
      group_pairs_def author_queries_def add_queries_def SORTS_def
      env1_def env0_def link_a_def link_b_def alice_def bob_def)

subsection \<open>Duplicates in a batch\<close>

lemma those_Some: "those xs = Some ys \<Longrightarrow> xs = map Some ys"
proof (induction xs arbitrary: ys)
  case Nil
  then show ?case by simp
next
  case (Cons x xs)
  then show ?case by (cases x) (auto split: option.splits)
qed

lemma by_fullname_names:
  assumes "links_by_name e" and "by_fullname (links e) names = Inr ls"
  shows "map l_fullname ls = names"
proof -
  from assms(2) have m: "map (links e) names = map Some ls"
    by (auto simp: by_fullname_def dest: those_Some split: option.splits)
  then have len: "length names = length ls"
    by (metis length_map)
  have "l_fullname (ls ! i) = names ! i" if "i < length ls" for i
  proof -
    have "links e (names ! i) = Some (ls ! i)"
      using m that len by (metis nth_map)
    then show ?thesis
      using assms(1) by (simp add: links_by_name_def)
  qed
  then show ?thesis
    using len by (simp add: list_eq_iff_nth_eq)
qed

lemma inserted_items_append [simp]:
  "inserted_items (xs @ ys) = inserted_items xs @ inserted_items ys"
proof (induction xs)
  case Nil
  then show ?case by simp
next
  case (Cons ev xs)
  then show ?case by (cases ev) auto
qed

lemma inserted_items_update_groups:
  "items \<in> set (inserted_items (snd (update_groups e qf groups)))
     \<Longrightarrow> \<exists>k ls. (k, ls) \<in> set groups \<and> items = map Link ls"
proof (induction groups)
  case Nil
  then show ?case by simp
next
  case (Cons kl groups)
  obtain k ls where kl: "kl = (k, ls)" by (cases kl)
  from Cons show ?case
    by (auto simp: kl add_queries_def split: option.splits if_splits prod.splits outcome.splits)
qed

lemma inserted_items_group_events:
  "list_all (group_ok e qf) groups
     \<Longrightarrow> inserted_items (group_events qf groups) = map (\<lambda>kl. map Link (snd kl)) groups"
proof (induction groups)
  case Nil
  then show ?case by (simp add: group_events_def)
next
  case (Cons kl groups)
  from Cons.prems obtain qs where "qf (fst kl) = Some qs"
    by (auto simp: group_ok_def split: option.splits)
  moreover from Cons have "inserted_items (group_events qf groups) = map (\<lambda>kl. map Link (snd kl)) groups"
    by simp
  ultimately show ?case
    by (simp add: group_events_def)
qed

lemma group_of_key:
  assumes "groups = map (\<lambda>k. (k, f k)) (map fst groups)" and "(k, vs) \<in> set groups"
  shows "vs = f k"
proof -
  from assms(2) have "(k, vs) \<in> set (map (\<lambda>k. (k, f k)) (map fst groups))"
    using assms(1) by simp
  then show ?thesis by auto
qed

lemma filtered_links_distinct:
  "distinct (map l_fullname ls) \<Longrightarrow> distinct (map thing_fullname (map Link (filter P ls)))"
  by (simp add: comp_def distinct_map_filter)

lemma author_items_distinct:
  assumes "links_by_name e"
    and "items \<in> set (inserted_items (snd (author_process_message e msgs)))"
  shows "distinct (map thing_fullname items)"
proof (cases "by_fullname (links e) (iteration (set_iter e) msgs)")
  case (Inl err)
  with assms(2) show ?thesis by (simp add: author_process_message_def)
next
  case (Inr ls)
  have names: "distinct (map l_fullname ls)"
    using by_fullname_names [OF assms(1) Inr] by simp
  show ?thesis
  proof (cases "byID (accounts e) (map fst (author_groups e ls))")
    case (Inl err)
    with assms(2) Inr show ?thesis by (simp add: author_process_message_def)
  next
    case (Inr authors_by_id)
    with assms(2) \<open>by_fullname (links e) (iteration (set_iter e) msgs) = Inr ls\<close>
    have "items \<in> set (inserted_items (snd (update_groups e (author_queries authors_by_id)
            (author_groups e ls))))"
      by (simp add: author_process_message_def)
    then obtain k vs where g: "(k, vs) \<in> set (author_groups e ls)" "items = map Link vs"
      using inserted_items_update_groups by blast
    have "vs = filter (\<lambda>l. l_author_id l = k) ls"
      using author_groups_eq g(1) by (rule group_of_key)
    then show ?thesis
      using filtered_links_distinct [OF names] by (simp add: g(2))
  qed
qed

lemma subreddit_items_distinct:
  assumes "links_by_name e"
    and "items \<in> set (inserted_items (snd (subreddit_process_message e msgs)))"
  shows "distinct (map thing_fullname items)"
proof (cases "by_fullname (links e) (iteration (set_iter e) msgs)")
  case (Inl err)
  with assms(2) show ?thesis by (simp add: subreddit_process_message_def)
next
  case (Inr ls)
  have names: "distinct (map l_fullname ls)"
    using by_fullname_names [OF assms(1) Inr] by simp
  show ?thesis
  proof (cases "byID (subreddits e) (map fst (subreddit_groups e ls))")
    case (Inl err)
    with assms(2) Inr show ?thesis by (simp add: subreddit_process_message_def)
  next
    case (Inr srs_by_id)
    with assms(2) \<open>by_fullname (links e) (iteration (set_iter e) msgs) = Inr ls\<close>
    have "items \<in> set (inserted_items (snd (update_groups e (subreddit_queries srs_by_id)
            (subreddit_groups e ls))))"
      by (simp add: subreddit_process_message_def)
    then obtain k vs where g: "(k, vs) \<in> set (subreddit_groups e ls)" "items = map Link vs"
      using inserted_items_update_groups by blast
    have "vs = filter (\<lambda>l. l_sr_id l = k) ls"
      using subreddit_groups_eq g(1) by (rule group_of_key)
    then show ?thesis
      using filtered_links_distinct [OF names] by (simp add: g(2))
  qed
qed

lemma domain_items_distinct:
  assumes "links_by_name e" and "\<forall>u. distinct (domain_permutations e u)"
    and "items \<in> set (inserted_items (snd (domain_process_message e msgs)))"
  shows "distinct (map thing_fullname items)"
proof (cases "by_fullname (links e) (iteration (set_iter e) msgs)")
  case (Inl err)
  with assms(3) show ?thesis by (simp add: domain_process_message_def)
next
  case (Inr ls)
  have names: "distinct (map l_fullname ls)"
    using by_fullname_names [OF assms(1) Inr] by simp
  from assms(3) Inr
  have "items \<in> set (inserted_items (snd (update_groups e domain_queries (domain_groups e ls))))"
    by (simp add: domain_process_message_def)
  then obtain d vs where g: "(d, vs) \<in> set (domain_groups e ls)" "items = map Link vs"
    using inserted_items_update_groups by blast
  have "vs = filter (\<lambda>l. d \<in> set (domain_permutations e (l_url l))) ls"
    using domain_groups_eq [OF assms(2)] g(1) by (rule group_of_key)
  then show ?thesis
    using filtered_links_distinct [OF names] by (simp add: g(2))
qed

lemma author_trace:
  assumes "by_fullname (links e) (iteration (set_iter e) msgs) = Inr ls"
    and "byID (accounts e) (map fst (author_groups e ls)) = Inr authors_by_id"
  shows "snd (author_process_message e msgs)
     = group_events (author_queries authors_by_id)
         (takeWhile (group_ok e (author_queries authors_by_id)) (author_groups e ls))"
  using assms by (simp add: author_process_message_def update_groups_events)

lemma subreddit_trace:
  assumes "by_fullname (links e) (iteration (set_iter e) msgs) = Inr ls"
    and "byID (subreddits e) (map fst (subreddit_groups e ls)) = Inr srs_by_id"
  shows "snd (subreddit_process_message e msgs)
     = group_events (subreddit_queries srs_by_id)
         (takeWhile (group_ok e (subreddit_queries srs_by_id)) (subreddit_groups e ls))"
  using assms by (simp add: subreddit_process_message_def update_groups_events)

lemma domain_trace:
  assumes "by_fullname (links e) (iteration (set_iter e) msgs) = Inr ls"
  shows "snd (domain_process_message e msgs)
     = group_events domain_queries (takeWhile (group_ok e domain_queries) (domain_groups e ls))"
  using assms by (simp add: domain_process_message_def update_groups_events)

lemma author_items_all:
  assumes "by_fullname (links e) (iteration (set_iter e) msgs) = Inr ls"
    and "byID (accounts e) (map fst (author_groups e ls)) = Inr authors_by_id"
    and "list_all (group_ok e (author_queries authors_by_id)) (author_groups e ls)"
  shows "inserted_items (snd (author_process_message e msgs))
     = map (\<lambda>k. map Link (filter (\<lambda>l. l_author_id l = k) ls)) (map fst (author_groups e ls))"
proof -
  have "inserted_items (snd (author_process_message e msgs))
      = map (\<lambda>kl. map Link (snd kl)) (author_groups e ls)"
    using assms
    by (simp add: author_process_message_def update_groups_all_ok inserted_items_group_events)
  also have "\<dots> = map (\<lambda>kl. map Link (snd kl))
        (map (\<lambda>k. (k, filter (\<lambda>l. l_author_id l = k) ls)) (map fst (author_groups e ls)))"
    by (rule arg_cong [OF author_groups_eq])
  also have "\<dots> = map (\<lambda>k. map Link (filter (\<lambda>l. l_author_id l = k) ls)) (map fst (author_groups e ls))"
    by (simp add: comp_def)
  finally show ?thesis .
qed

lemma subreddit_items_all:
  assumes "by_fullname (links e) (iteration (set_iter e) msgs) = Inr ls"
    and "byID (subreddits e) (map fst (subreddit_groups e ls)) = Inr srs_by_id"
    and "list_all (group_ok e (subreddit_queries srs_by_id)) (subreddit_groups e ls)"
  shows "inserted_items (snd (subreddit_process_message e msgs))
     = map (\<lambda>k. map Link (filter (\<lambda>l. l_sr_id l = k) ls)) (map fst (subreddit_groups e ls))"
proof -
  have "inserted_items (snd (subreddit_process_message e msgs))
      = map (\<lambda>kl. map Link (snd kl)) (subreddit_groups e ls)"
    using assms
    by (simp add: subreddit_process_message_def update_groups_all_ok inserted_items_group_events)
  also have "\<dots> = map (\<lambda>kl. map Link (snd kl))
        (map (\<lambda>k. (k, filter (\<lambda>l. l_sr_id l = k) ls)) (map fst (subreddit_groups e ls)))"
    by (rule arg_cong [OF subreddit_groups_eq])
  also have "\<dots> = map (\<lambda>k. map Link (filter (\<lambda>l. l_sr_id l = k) ls)) (map fst (subreddit_groups e ls))"
    by (simp add: comp_def)
  finally show ?thesis .
qed

lemma domain_items_all:
  assumes "\<forall>u. distinct (domain_permutations e u)"
    and "by_fullname (links e) (iteration (set_iter e) msgs) = Inr ls"
    and "list_all (group_ok e domain_queries) (domain_groups e ls)"
  shows "inserted_items (snd (domain_process_message e msgs))
     = map (\<lambda>d. map Link (filter (\<lambda>l. d \<in> set (domain_permutations e (l_url l))) ls))
         (map fst (domain_groups e ls))"
proof -
  have "inserted_items (snd (domain_process_message e msgs))
      = map (\<lambda>kl. map Link (snd kl)) (domain_groups e ls)"
    using assms(2,3)
    by (simp add: domain_process_message_def update_groups_all_ok inserted_items_group_events)
  also have "\<dots> = map (\<lambda>kl. map Link (snd kl))
        (map (\<lambda>d. (d, filter (\<lambda>l. d \<in> set (domain_permutations e (l_url l))) ls))
           (map fst (domain_groups e ls)))"
    by (rule arg_cong [OF domain_groups_eq [OF assms(1)]])
  also have "\<dots> = map (\<lambda>d. map Link (filter (\<lambda>l. d \<in> set (domain_permutations e (l_url l))) ls))
         (map fst (domain_groups e ls))"
    by (simp add: comp_def)
  finally show ?thesis .
qed

text \<open>
  C10. The bodies of a batch are collapsed before anything else: the names that are resolved
  are the distinct bodies, each once, and with a lookup that gives for a name the link of
  that name, the links resolved bear exactly these names. The groups of a batch have one
  entry for each key of a resolved link, and the entry of a key holds the resolved links of
  that key, each once (for the domain consumer, when the permutations of a URL hold a domain
  once, as a set does). The calls of \<open>add_queries\<close> in the trace of a consumer are those of
  the groups, one call for each group and in the order of the iteration, up to the first
  group that fails; so when no group fails, the lists handed to \<open>add_queries\<close> are, for each
  key once, the resolved links of that key, and in every case a list holds a target at most
  once.
\<close>

theorem batch_collapses_duplicates:
  "distinct (iteration (set_iter e) msgs) \<and> set (iteration (set_iter e) msgs) = set msgs
   \<and> (links_by_name e \<longrightarrow>
        (by_fullname (links e) (iteration (set_iter e) msgs) = Inr ls
           \<longrightarrow> map l_fullname ls = iteration (set_iter e) msgs)
        \<and> (\<forall>items \<in> set (inserted_items (snd (author_process_message e msgs))).
              distinct (map thing_fullname items))
        \<and> (\<forall>items \<in> set (inserted_items (snd (subreddit_process_message e msgs))).
              distinct (map thing_fullname items))
        \<and> ((\<forall>u. distinct (domain_permutations e u)) \<longrightarrow>
              (\<forall>items \<in> set (inserted_items (snd (domain_process_message e msgs))).
                 distinct (map thing_fullname items))))
   \<and> distinct (map fst (author_groups e ls))
   \<and> distinct (map fst (subreddit_groups e ls))
   \<and> distinct (map fst (domain_groups e ls))
   \<and> set (map fst (author_groups e ls)) = l_author_id ` set ls
   \<and> set (map fst (subreddit_groups e ls)) = l_sr_id ` set ls
   \<and> set (map fst (domain_groups e ls)) = (\<Union>l \<in> set ls. set (domain_permutations e (l_url l)))
   \<and> author_groups e ls
       = map (\<lambda>k. (k, filter (\<lambda>l. l_author_id l = k) ls)) (map fst (author_groups e ls))
   \<and> subreddit_groups e ls
       = map (\<lambda>k. (k, filter (\<lambda>l. l_sr_id l = k) ls)) (map fst (subreddit_groups e ls))
   \<and> ((\<forall>u. distinct (domain_permutations e u)) \<longrightarrow>
        domain_groups e ls
          = map (\<lambda>d. (d, filter (\<lambda>l. d \<in> set (domain_permutations e (l_url l))) ls))
              (map fst (domain_groups e ls)))
   \<and> (by_fullname (links e) (iteration (set_iter e) msgs) = Inr ls
        \<and> byID (accounts e) (map fst (author_groups e ls)) = Inr authors_by_id
      \<longrightarrow> snd (author_process_message e msgs)
            = group_events (author_queries authors_by_id)
                (takeWhile (group_ok e (author_queries authors_by_id)) (author_groups e ls)))
   \<and> (by_fullname (links e) (iteration (set_iter e) msgs) = Inr ls
        \<and> byID (subreddits e) (map fst (subreddit_groups e ls)) = Inr srs_by_id
      \<longrightarrow> snd (subreddit_process_message e msgs)
            = group_events (subreddit_queries srs_by_id)
                (takeWhile (group_ok e (subreddit_queries srs_by_id)) (subreddit_groups e ls)))
   \<and> (by_fullname (links e) (iteration (set_iter e) msgs) = Inr ls
      \<longrightarrow> snd (domain_process_message e msgs)
            = group_events domain_queries
                (takeWhile (group_ok e domain_queries) (domain_groups e ls)))
   \<and> (by_fullname (links e) (iteration (set_iter e) msgs) = Inr ls
        \<and> byID (accounts e) (map fst (author_groups e ls)) = Inr authors_by_id
        \<and> list_all (group_ok e (author_queries authors_by_id)) (author_groups e ls)
      \<longrightarrow> inserted_items (snd (author_process_message e msgs))
            = map (\<lambda>k. map Link (filter (\<lambda>l. l_author_id l = k) ls)) (map fst (author_groups e ls)))
   \<and> (by_fullname (links e) (iteration (set_iter e) msgs) = Inr ls
        \<and> byID (subreddits e) (map fst (subreddit_groups e ls)) = Inr srs_by_id
        \<and> list_all (group_ok e (subreddit_queries srs_by_id)) (subreddit_groups e ls)
      \<longrightarrow> inserted_items (snd (subreddit_process_message e msgs))
            = map (\<lambda>k. map Link (filter (\<lambda>l. l_sr_id l = k) ls)) (map fst (subreddit_groups e ls)))
   \<and> ((\<forall>u. distinct (domain_permutations e u))
        \<and> by_fullname (links e) (iteration (set_iter e) msgs) = Inr ls
        \<and> list_all (group_ok e domain_queries) (domain_groups e ls)
      \<longrightarrow> inserted_items (snd (domain_process_message e msgs))
            = map (\<lambda>d. map Link (filter (\<lambda>l. d \<in> set (domain_permutations e (l_url l))) ls))
                (map fst (domain_groups e ls)))"
  apply (intro conjI)
  subgoal by (rule iteration_distinct)
  subgoal by (rule iteration_set)
  subgoal
    using by_fullname_names [of e "iteration (set_iter e) msgs" ls]
      author_items_distinct [of e _ msgs] subreddit_items_distinct [of e _ msgs]
      domain_items_distinct [of e _ msgs]
    by blast
  subgoal by (rule author_groups_keys(1))
  subgoal by (rule subreddit_groups_keys(1))
  subgoal by (rule domain_groups_keys(1))
  subgoal by (rule author_groups_keys(2))
  subgoal by (rule subreddit_groups_keys(2))
  subgoal by (rule domain_groups_keys(2))
  subgoal by (rule author_groups_eq)
  subgoal by (rule subreddit_groups_eq)
  subgoal using domain_groups_eq [of e ls] by blast
  subgoal using author_trace [of e msgs ls authors_by_id] by blast
  subgoal using subreddit_trace [of e msgs ls srs_by_id] by blast
  subgoal using domain_trace [of e msgs ls] by blast
  subgoal using author_items_all [of e msgs ls authors_by_id] by blast
  subgoal using subreddit_items_all [of e msgs ls srs_by_id] by blast
  subgoal using domain_items_all [of e msgs ls] by blast
  done

lemma env0_well_formed:
  "links_by_name env0" "\<forall>u. distinct (domain_permutations env0 u)"
  by (auto simp: links_by_name_def env0_def link_a_def link_b_def link_c_def split: if_splits)

lemma ex_duplicate_batch:
  "by_fullname (links env0) (iteration (set_iter env0) [''t3_a'', ''t3_b'', ''t3_a''])
     = Inr [link_b, link_a]"
  "subreddit_groups env0 [link_b, link_a] = [(7, [link_b, link_a])]"
  "list_all (group_ok env0 (subreddit_queries (\<lambda>i. if i \<in> set [7] then subreddits env0 i else None)))
     [(7, [link_b, link_a])]"
  by (simp_all add: by_fullname_def iteration_def subreddit_groups_def iteritems_def
      values_of_def group_pairs_def group_ok_def subreddit_queries_def
      env0_def link_a_def link_b_def)

theorem batch_collapses_duplicates_witness:
  "links_by_name env0
   \<and> by_fullname (links env0) (iteration (set_iter env0) [''t3_a'', ''t3_b'', ''t3_a''])
       = Inr [link_b, link_a]
   \<and> map l_fullname [link_b, link_a] = iteration (set_iter env0) [''t3_a'', ''t3_b'', ''t3_a'']
   \<and> inserted_items (snd (subreddit_process_message env0 [''t3_a'', ''t3_b'', ''t3_a'']))
       = [[Link link_b, Link link_a]]
   \<and> list_all (\<lambda>items. distinct (map thing_fullname items))
        (inserted_items (snd (subreddit_process_message env0 [''t3_a'', ''t3_b'', ''t3_a''])))
   \<and> list_all (\<lambda>items. distinct (map thing_fullname items))
        (inserted_items (snd (author_process_message env0 [''t3_a'', ''t3_b'', ''t3_a''])))
   \<and> list_all (\<lambda>items. distinct (map thing_fullname items))
        (inserted_items (snd (domain_process_message env0 [''t3_a'', ''t3_b'', ''t3_a''])))"
proof -
  let ?msgs = "[''t3_a'', ''t3_b'', ''t3_a'']"
  let ?srs = "\<lambda>i. if i \<in> set [7] then subreddits env0 i else None"
  note inst = batch_collapses_duplicates [where e = env0 and msgs = ?msgs and ls = "[link_b, link_a]"
      and srs_by_id = ?srs and authors_by_id = "\<lambda>i. None"]
  have b: "byID (subreddits env0) (map fst (subreddit_groups env0 [link_b, link_a])) = Inr ?srs"
  proof -
    have "those (map (subreddits env0) [7]) = Some [\<lparr>sr_id = 7, sr_name = ''pics''\<rparr>]"
      by (simp add: env0_def)
    then show ?thesis by (simp add: ex_duplicate_batch(2) byID_def)
  qed
  have ok: "list_all (group_ok env0 (subreddit_queries ?srs)) (subreddit_groups env0 [link_b, link_a])"
    using ex_duplicate_batch(3) by (simp only: ex_duplicate_batch(2))
  have names: "map l_fullname [link_b, link_a] = iteration (set_iter env0) ?msgs"
    using inst env0_well_formed(1) ex_duplicate_batch(1) by blast
  have d: "list_all (\<lambda>items. distinct (map thing_fullname items))
        (inserted_items (snd (subreddit_process_message env0 ?msgs)))
   \<and> list_all (\<lambda>items. distinct (map thing_fullname items))
        (inserted_items (snd (author_process_message env0 ?msgs)))
   \<and> list_all (\<lambda>items. distinct (map thing_fullname items))
        (inserted_items (snd (domain_process_message env0 ?msgs)))"
    using inst env0_well_formed by (simp add: list_all_iff)
  have "inserted_items (snd (subreddit_process_message env0 ?msgs))
      = map (\<lambda>k. map Link (filter (\<lambda>l. l_sr_id l = k) [link_b, link_a]))
          (map fst (subreddit_groups env0 [link_b, link_a]))"
    using inst ex_duplicate_batch(1) b ok by blast
  then have "inserted_items (snd (subreddit_process_message env0 ?msgs))
      = map (\<lambda>k. map Link (filter (\<lambda>l. l_sr_id l = k) [link_b, link_a]))
          (map fst [(7::int, [link_b, link_a])])"
    by (simp only: ex_duplicate_batch(2))
  moreover have "l_sr_id link_b = 7 \<and> l_sr_id link_a = 7"
    by (simp add: link_a_def link_b_def)
  ultimately have i: "inserted_items (snd (subreddit_process_message env0 ?msgs)) = [[Link link_b, Link link_a]]"
    by simp
  show ?thesis
    using env0_well_formed(1) ex_duplicate_batch(1) names d i by blast
qed

end
